theory Spec2Isabelle
  imports Complex_Main
begin

section \<open>The email daemon of smart-email-reminders-mcp\<close>

text \<open>
  A shallow embedding of \<^verbatim>\<open>EmailDaemon\<close> (src/daemon/email-daemon.ts): its
  processing cycle, its retry queue, its deduplication set and its persisted state.
  The daemon's fields are a record that every operation takes and returns. The
  collaborators it awaits (rule store, mail clients, extractor, reminder sink, clock,
  file system) are a record of response functions; each takes the number of the call,
  so that a collaborator may answer differently from one call to the next. Every call
  to a collaborator and every emitted event is appended to the field \<open>log\<close>, in the
  order the code performs them.
\<close>

subsection \<open>JavaScript values the daemon handles\<close>

text \<open>
  A \<^verbatim>\<open>Date\<close> is a number of milliseconds since the epoch, or the Invalid Date
  (time value NaN). Comparing two dates with \<^verbatim>\<open>>\<close> converts both sides to numbers, and
  every comparison with NaN is false.
\<close>

datatype jsdate = InvalidDate | DateMs int

fun date_gt :: "jsdate \<Rightarrow> jsdate \<Rightarrow> bool" where
  "date_gt (DateMs a) (DateMs b) = (a > b)"
| "date_gt _ _ = False"

text \<open>
  A thrown value is an \<^verbatim>\<open>Error\<close> with its message, or anything else. The daemon
  reads it as \<^verbatim>\<open>error instanceof Error ? error.message : 'Unknown error'\<close>.
\<close>

datatype js_thrown = JsError string | NonError

fun error_message :: "js_thrown \<Rightarrow> string" where
  "error_message (JsError m) = m"
| "error_message NonError = ''Unknown error''"

text \<open>
  A \<^verbatim>\<open>Set\<close> of strings keeps its members in insertion order without repetition:
  a list, with \<^verbatim>\<open>has\<close>, \<^verbatim>\<open>add\<close> and \<^verbatim>\<open>new Set(array)\<close>.
\<close>

definition set_has :: "string list \<Rightarrow> string \<Rightarrow> bool" where
  "set_has s x = (x \<in> set s)"

definition set_add :: "string list \<Rightarrow> string \<Rightarrow> string list" where
  "set_add s x = (if x \<in> set s then s else s @ [x])"

definition new_Set :: "string list \<Rightarrow> string list" where
  "new_Set xs = foldl set_add [] xs"

text \<open>
  A number is a double. The counters of the daemon (\<^verbatim>\<open>totalEmailsProcessed\<close>,
  \<^verbatim>\<open>totalRemindersCreated\<close>, the \<^verbatim>\<open>attempts\<close> of a queue item) hold
  non-negative integers, and \<^verbatim>\<open>++\<close> adds one and rounds to the nearest double, ties
  to even: below \<open>2^53 = 9007199254740992\<close> the sum is exact; from there up to \<open>2^54\<close>
  the doubles are the even integers and the sum lies halfway between two of them, so the
  result is the operand when its half is even and the operand plus 2 otherwise; from
  \<open>2^54\<close> on the result is the operand. So a counter at \<open>2^53\<close> stays there.
\<close>

definition js_increment :: "nat \<Rightarrow> nat" where
  "js_increment n =
     (if n < 9007199254740992 then n + 1
      else if n < 18014398509481984 \<and> odd (n div 2) then n + 2
      else n)"

text \<open>
  \<^verbatim>\<open>retryAttempts\<close> is whatever number the configuration holds: the schema is
  \<^verbatim>\<open>z.number()\<close>, and the constructor's partial configuration and
  \<^verbatim>\<open>updateConfig\<close> are not validated. It is a finite number, whole or not, NaN
  or an infinity. \<^verbatim>\<open>item.attempts < retryAttempts\<close> compares the values; every
  comparison with NaN is false, and \<^verbatim>\<open>undefined\<close> compares as NaN does.
\<close>

datatype js_number = Finite real | NaN | PlusInfinity | MinusInfinity

fun attempts_below :: "nat \<Rightarrow> js_number \<Rightarrow> bool" where
  "attempts_below a (Finite r) = (real a < r)"
| "attempts_below a NaN = False"
| "attempts_below a PlusInfinity = True"
| "attempts_below a MinusInfinity = False"

subsection \<open>Data model (src/types and the daemon's interfaces)\<close>

datatype provider = Gmail | Icloud

datatype rule_status = Active | Paused | Disabled

datatype priority = Low | Normal | High

record reminder_template =
  titleTemplate :: string
  listName :: string
  priority :: priority
  daysBeforeReminder :: int
  timeOfDay :: string

record email_rule =
  name :: string
  status :: rule_status
  providers :: "provider list"
  fromContains :: "string list option"
  fromDomains :: "string list option"
  subjectContains :: "string list option"
  bodyContains :: "string list option"
  subjectRegex :: "string option"
  prompt :: string
  reminderTemplate :: reminder_template

text \<open>\<^verbatim>\<open>EmailData\<close>; the field \<^verbatim>\<open>id\<close> is \<open>eid\<close> and \<^verbatim>\<open>from\<close> is \<open>sender\<close>.\<close>

record email_data =
  eid :: string
  sender :: string
  subject :: string
  body :: string
  date :: jsdate
  provider :: provider
  processed :: bool
  matchedRules :: "string list"

record processing_result =
  emailId :: string
  ruleName :: string
  extractedFields :: "(string \<times> string) list"
  confidence :: int
  extractionMethod :: string

record reminder_creation_result =
  success :: bool
  reminderId :: "string option"
  error :: "string option"

record daemon_config =
  intervalMinutes :: int
  maxEmailsPerScan :: int
  retryAttempts :: js_number
  enableGmail :: bool
  enableIcloud :: bool

record daemon_state =
  lastProcessedTimestamp :: jsdate
  processedEmailIds :: "string list"
  totalEmailsProcessed :: nat
  totalRemindersCreated :: nat
  lastErrorTimestamp :: "jsdate option"
  lastErrorMessage :: "string option"

text \<open>\<^verbatim>\<open>ProcessingQueueItem\<close>; its field \<^verbatim>\<open>error\<close> is \<open>item_error\<close>.\<close>

record processing_queue_item =
  email :: email_data
  rules :: "email_rule list"
  attempts :: nat
  lastAttemptTime :: "jsdate option"
  item_error :: "string option"

subsection \<open>The persisted state file\<close>

text \<open>
  The text of a timestamp in the file is represented by what the \<^verbatim>\<open>Date\<close>
  constructor makes of it: \<open>TextOf d\<close> is a non-empty string from which
  \<^verbatim>\<open>new Date(s)\<close> builds \<open>d\<close>, and \<open>EmptyText\<close> is the empty string (falsy, and an
  Invalid Date when parsed). \<^verbatim>\<open>toISOString\<close> of a valid date \<open>DateMs t\<close> writes a
  string that parses back to \<open>DateMs t\<close>, that is \<open>TextOf (DateMs t)\<close>; on the Invalid
  Date it throws a RangeError.

  The parsed file is the object \<^verbatim>\<open>savedState\<close>: each key is absent (\<open>None\<close>) or
  holds a value of the type \<^verbatim>\<open>saveState\<close> writes. The file itself is missing
  (ENOENT), unreadable for another reason, text on which \<^verbatim>\<open>JSON.parse\<close> throws,
  the JSON value \<^verbatim>\<open>null\<close> (reading a property of it throws a TypeError), or an
  object; any other JSON value has none of the six keys and is the object without
  keys here. \<^verbatim>\<open>JSON.stringify\<close> leaves out the keys whose value is
  \<^verbatim>\<open>undefined\<close>, and its output parses back to the object written.
\<close>

datatype date_text = EmptyText | TextOf jsdate

record saved_state =
  sv_lastProcessedTimestamp :: "date_text option"
  sv_processedEmailIds :: "string list option"
  sv_totalEmailsProcessed :: "nat option"
  sv_totalRemindersCreated :: "nat option"
  sv_lastErrorTimestamp :: "date_text option"
  sv_lastErrorMessage :: "string option"

datatype state_file =
    FileMissing
  | FileUnreadable
  | FileCorrupt string
  | FileNull
  | FileObject saved_state

subsection \<open>Events and collaborator calls\<close>

datatype event =
    Started
  | Stopped
  | ErrorEvent js_thrown
  | ProcessingComplete nat int nat
  | ProcessingError js_thrown
  | ReminderCreated string "string option" string int
  | ProcessingFailed string string nat

datatype effect =
    Emit event
  | LoadRules
  | GetEmails provider int
  | ProcessMultipleEmails "email_data list" "email_rule list"
  | CreateReminder "(string \<times> string) list" reminder_template string
  | WriteFile saved_state
  | Initialize provider
  | TestAccess

text \<open>
  The collaborators. \<open>doesEmailMatchRule\<close> is the matcher of
  \<^verbatim>\<open>EmailFilter\<close>; the others are awaited calls, answered by call number, and
  \<open>Inl\<close> is a rejected promise.
\<close>

record env =
  loadRules :: "nat \<Rightarrow> js_thrown + email_rule list"
  gmailIsReady :: "nat \<Rightarrow> bool"
  gmailGetEmails :: "nat \<Rightarrow> int \<Rightarrow> js_thrown + email_data list"
  icloudIsReady :: "nat \<Rightarrow> bool"
  icloudGetEmails :: "nat \<Rightarrow> int \<Rightarrow> js_thrown + email_data list"
  doesEmailMatchRule :: "email_data \<Rightarrow> email_rule \<Rightarrow> bool"
  processMultipleEmails ::
    "nat \<Rightarrow> email_data list \<Rightarrow> email_rule list \<Rightarrow> js_thrown + processing_result list"
  createReminderFromExtractedData ::
    "nat \<Rightarrow> (string \<times> string) list \<Rightarrow> reminder_template \<Rightarrow> string
      \<Rightarrow> js_thrown + reminder_creation_result"
  now :: "nat \<Rightarrow> int"
  writeFileOk :: "nat \<Rightarrow> bool"
  gmailInitialize :: "nat \<Rightarrow> js_thrown option"
  icloudInitialize :: "nat \<Rightarrow> js_thrown option"
  testAccess :: "nat \<Rightarrow> js_thrown + reminder_creation_result"

text \<open>
  The daemon object: the fields of the class, the state file it reads and writes, the
  log, and the number of calls made so far to each collaborator.
\<close>

record daemon =
  config :: daemon_config
  state :: daemon_state
  isRunning :: bool
  intervalArmed :: bool
  processingQueue :: "processing_queue_item list"
  isProcessing :: bool
  gmailClient :: bool
  icloudClient :: bool
  stateFile :: state_file
  log :: "effect list"
  n_rules :: nat
  n_fetch :: nat
  n_extract :: nat
  n_sink :: nat
  n_clock :: nat
  n_write :: nat
  n_start :: nat

definition emit :: "event \<Rightarrow> daemon \<Rightarrow> daemon" where
  "emit ev d = d\<lparr>log := log d @ [Emit ev]\<rparr>"

definition called :: "effect \<Rightarrow> daemon \<Rightarrow> daemon" where
  "called c d = d\<lparr>log := log d @ [c]\<rparr>"

text \<open>\<^verbatim>\<open>new Date()\<close> and \<^verbatim>\<open>Date.now()\<close>: read the clock.\<close>

definition read_clock :: "env \<Rightarrow> daemon \<Rightarrow> int \<times> daemon" where
  "read_clock E d = (now E (n_clock d), d\<lparr>n_clock := n_clock d + 1\<rparr>)"

subsection \<open>Constructor\<close>

text \<open>
  The constructor takes the configuration (here: whether the Gmail and iCloud sections
  are present, and the daemon section) and a partial \<^verbatim>\<open>DaemonConfig\<close> whose
  present keys override the derived ones. The state starts at the epoch with an empty
  set and zero counters. \<^verbatim>\<open>stateFilePath\<close> names the one file of the model.
\<close>

record configuration =
  gmailConfigured :: bool
  icloudConfigured :: bool
  cfg_intervalMinutes :: int
  cfg_maxEmailsPerScan :: int
  cfg_retryAttempts :: js_number

record daemon_config_partial =
  p_intervalMinutes :: "int option"
  p_maxEmailsPerScan :: "int option"
  p_retryAttempts :: "js_number option"
  p_enableGmail :: "bool option"
  p_enableIcloud :: "bool option"

definition initial_state :: daemon_state where
  "initial_state =
     \<lparr>lastProcessedTimestamp = DateMs 0, processedEmailIds = [],
      totalEmailsProcessed = 0, totalRemindersCreated = 0,
      lastErrorTimestamp = None, lastErrorMessage = None\<rparr>"

definition merge_config :: "configuration \<Rightarrow> daemon_config_partial \<Rightarrow> daemon_config" where
  "merge_config c p =
     \<lparr>intervalMinutes = (case p_intervalMinutes p of Some v \<Rightarrow> v | None \<Rightarrow> cfg_intervalMinutes c),
      maxEmailsPerScan = (case p_maxEmailsPerScan p of Some v \<Rightarrow> v | None \<Rightarrow> cfg_maxEmailsPerScan c),
      retryAttempts = (case p_retryAttempts p of Some v \<Rightarrow> v | None \<Rightarrow> cfg_retryAttempts c),
      enableGmail = (case p_enableGmail p of Some v \<Rightarrow> v | None \<Rightarrow> gmailConfigured c),
      enableIcloud = (case p_enableIcloud p of Some v \<Rightarrow> v | None \<Rightarrow> icloudConfigured c)\<rparr>"

definition constructor :: "configuration \<Rightarrow> daemon_config_partial \<Rightarrow> state_file \<Rightarrow> daemon" where
  "constructor c p f =
     (let cfg = merge_config c p in
      \<lparr>config = cfg, state = initial_state, isRunning = False, intervalArmed = False,
       processingQueue = [], isProcessing = False,
       gmailClient = (enableGmail cfg \<and> gmailConfigured c),
       icloudClient = (enableIcloud cfg \<and> icloudConfigured c),
       stateFile = f, log = [],
       n_rules = 0, n_fetch = 0, n_extract = 0, n_sink = 0, n_clock = 0, n_write = 0,
       n_start = 0\<rparr>)"

subsection \<open>Fetching\<close>

text \<open>
  \<^verbatim>\<open>fetchNewEmails\<close>: each client that is defined and ready is asked for
  \<^verbatim>\<open>Math.floor(maxEmailsPerScan / 2)\<close> messages; a rejected fetch counts as an empty
  list. The lists are concatenated, Gmail first, and the messages already processed or
  not newer than the watermark are filtered out.
\<close>

definition fetch_limit :: "daemon \<Rightarrow> int" where
  "fetch_limit d = maxEmailsPerScan (config d) div 2"

definition gmail_ready :: "env \<Rightarrow> daemon \<Rightarrow> bool" where
  "gmail_ready E d = (gmailClient d \<and> gmailIsReady E (n_fetch d))"

definition icloud_ready :: "env \<Rightarrow> daemon \<Rightarrow> bool" where
  "icloud_ready E d = (icloudClient d \<and> icloudIsReady E (n_fetch d))"

definition fetch_gmail :: "env \<Rightarrow> daemon \<Rightarrow> email_data list \<times> daemon" where
  "fetch_gmail E d =
     (if gmail_ready E d
      then (case gmailGetEmails E (n_fetch d) (fetch_limit d) of
              Inl _ \<Rightarrow> [] | Inr es \<Rightarrow> es,
            called (GetEmails Gmail (fetch_limit d)) d)
      else ([], d))"

definition fetch_icloud :: "env \<Rightarrow> daemon \<Rightarrow> email_data list \<times> daemon" where
  "fetch_icloud E d =
     (if icloud_ready E d
      then (case icloudGetEmails E (n_fetch d) (fetch_limit d) of
              Inl _ \<Rightarrow> [] | Inr es \<Rightarrow> es,
            called (GetEmails Icloud (fetch_limit d)) d)
      else ([], d))"

definition is_new :: "daemon_state \<Rightarrow> email_data \<Rightarrow> bool" where
  "is_new s e =
     (\<not> set_has (processedEmailIds s) (eid e) \<and> date_gt (date e) (lastProcessedTimestamp s))"

definition fetchNewEmails :: "env \<Rightarrow> daemon \<Rightarrow> email_data list \<times> daemon" where
  "fetchNewEmails E d =
     (let (g, d1) = fetch_gmail E d;
          (i, d2) = fetch_icloud E d1;
          allEmails = g @ i
      in (filter (is_new (state d2)) allEmails, d2\<lparr>n_fetch := n_fetch d2 + 1\<rparr>))"

subsection \<open>Matching and enqueueing\<close>

text \<open>
  \<^verbatim>\<open>EmailFilter.filterEmails\<close> (src/email-processors/email-filter.ts): with no
  emails or no rules the emails come back as they are; otherwise each email gets the
  names of the rules that match it.
\<close>

definition filterEmails :: "env \<Rightarrow> email_data list \<Rightarrow> email_rule list \<Rightarrow> email_data list" where
  "filterEmails E emails rs =
     (if emails = [] \<or> rs = [] then emails
      else map (\<lambda>e. e\<lparr>matchedRules := map name (filter (doesEmailMatchRule E e) rs),
                        processed := False\<rparr>) emails)"

definition addToQueue :: "email_data \<Rightarrow> email_rule list \<Rightarrow> daemon \<Rightarrow> daemon" where
  "addToQueue e rs d =
     d\<lparr>processingQueue := processingQueue d @
          [\<lparr>email = e, rules = rs, attempts = 0, lastAttemptTime = None, item_error = None\<rparr>]\<rparr>"

text \<open>The loop of \<^verbatim>\<open>processEmailsOnce\<close> over the matched emails.\<close>

fun enqueue_matched :: "email_data list \<Rightarrow> email_rule list \<Rightarrow> daemon \<Rightarrow> daemon" where
  "enqueue_matched [] rs d = d"
| "enqueue_matched (e # es) rs d =
     (if \<not> set_has (processedEmailIds (state d)) (eid e)
      then enqueue_matched es rs (addToQueue e rs d)
      else enqueue_matched es rs d)"

subsection \<open>Processing one queue item\<close>

text \<open>
  The loop of \<^verbatim>\<open>processQueueItem\<close> over the extraction results. The result
  \<open>Some t\<close> is the value thrown, \<open>None\<close> is normal completion. A result below 25 is
  skipped, a result whose rule is not in the item's list is skipped, otherwise the sink
  is called; a sink that reports failure makes the loop throw
  \<^verbatim>\<open>new Error(reminderResult.error)\<close>, whose message is empty when there is none.
\<close>

fun process_results ::
  "env \<Rightarrow> email_data \<Rightarrow> email_rule list \<Rightarrow> processing_result list \<Rightarrow> daemon
    \<Rightarrow> js_thrown option \<times> daemon" where
  "process_results E e rs [] d = (None, d)"
| "process_results E e rs (r # results) d =
     (if confidence r < 25 then process_results E e rs results d
      else case find (\<lambda>ru. name ru = ruleName r) rs of
        None \<Rightarrow> process_results E e rs results d
      | Some ru \<Rightarrow>
          (let d1 = called (CreateReminder (extractedFields r) (reminderTemplate ru) (eid e))
                      (d\<lparr>n_sink := n_sink d + 1\<rparr>)
           in case createReminderFromExtractedData E (n_sink d) (extractedFields r)
                     (reminderTemplate ru) (eid e) of
                Inl t \<Rightarrow> (Some t, d1)
              | Inr res \<Rightarrow>
                  if success res
                  then process_results E e rs results
                         (emit (ReminderCreated (eid e) (reminderId res) (ruleName r) (confidence r))
                            (d1\<lparr>state := (state d1)\<lparr>totalRemindersCreated :=
                                   js_increment (totalRemindersCreated (state d1))\<rparr>\<rparr>))
                  else (Some (JsError (case error res of None \<Rightarrow> [] | Some m \<Rightarrow> m)), d1)))"

definition processQueueItem ::
  "env \<Rightarrow> processing_queue_item \<Rightarrow> daemon \<Rightarrow> js_thrown option \<times> daemon" where
  "processQueueItem E item d =
     (let d1 = called (ProcessMultipleEmails [email item] (rules item))
                 (d\<lparr>n_extract := n_extract d + 1\<rparr>)
      in case processMultipleEmails E (n_extract d) [email item] (rules item) of
           Inl t \<Rightarrow> (Some t, d1)
         | Inr results \<Rightarrow> process_results E (email item) (rules item) results d1)"

subsection \<open>Draining the queue\<close>

text \<open>
  \<^verbatim>\<open>processQueue\<close> copies the queue, empties it and handles each copied item once.
  An item that completes is marked processed and counted. An item that throws gets one
  more attempt recorded and is pushed back onto the live queue while its attempts are
  below \<^verbatim>\<open>retryAttempts\<close>; otherwise \<^verbatim>\<open>processingFailed\<close> is emitted.
\<close>

definition mark_processed :: "processing_queue_item \<Rightarrow> daemon \<Rightarrow> daemon" where
  "mark_processed item d =
     d\<lparr>state := (state d)\<lparr>
          processedEmailIds := set_add (processedEmailIds (state d)) (eid (email item)),
          totalEmailsProcessed := js_increment (totalEmailsProcessed (state d))\<rparr>\<rparr>"

definition record_failure ::
  "env \<Rightarrow> processing_queue_item \<Rightarrow> js_thrown \<Rightarrow> daemon \<Rightarrow> daemon" where
  "record_failure E item t d =
     (let (tm, d1) = read_clock E d;
          item' = item\<lparr>attempts := js_increment (attempts item),
                       lastAttemptTime := Some (DateMs tm),
                       item_error := Some (error_message t)\<rparr>
      in if attempts_below (attempts item') (retryAttempts (config d1))
         then d1\<lparr>processingQueue := processingQueue d1 @ [item']\<rparr>
         else emit (ProcessingFailed (eid (email item')) (error_message t) (attempts item')) d1)"

definition drain_item :: "env \<Rightarrow> processing_queue_item \<Rightarrow> daemon \<Rightarrow> daemon" where
  "drain_item E item d =
     (case processQueueItem E item d of
        (None, d1) \<Rightarrow> mark_processed item d1
      | (Some t, d1) \<Rightarrow> record_failure E item t d1)"

fun drain_items :: "env \<Rightarrow> processing_queue_item list \<Rightarrow> daemon \<Rightarrow> daemon" where
  "drain_items E [] d = d"
| "drain_items E (item # items) d = drain_items E items (drain_item E item d)"

definition processQueue :: "env \<Rightarrow> daemon \<Rightarrow> daemon" where
  "processQueue E d = drain_items E (processingQueue d) (d\<lparr>processingQueue := []\<rparr>)"

subsection \<open>Saving and loading the state\<close>

fun toISOString :: "jsdate \<Rightarrow> js_thrown + date_text" where
  "toISOString (DateMs t) = Inr (TextOf (DateMs t))"
| "toISOString InvalidDate = Inl (JsError ''Invalid time value'')"

text \<open>
  The object \<^verbatim>\<open>stateToSave\<close> of \<^verbatim>\<open>saveState\<close>. Building it throws when a
  timestamp is the Invalid Date; \<^verbatim>\<open>lastErrorTimestamp?.toISOString()\<close> is
  \<^verbatim>\<open>undefined\<close> when there is no such timestamp.
\<close>

definition stateToSave :: "daemon_state \<Rightarrow> js_thrown + saved_state" where
  "stateToSave s =
     (case toISOString (lastProcessedTimestamp s) of
        Inl t \<Rightarrow> Inl t
      | Inr lp \<Rightarrow>
          (case (case lastErrorTimestamp s of
                   None \<Rightarrow> Inr None
                 | Some dt \<Rightarrow> (case toISOString dt of Inl t \<Rightarrow> Inl t | Inr x \<Rightarrow> Inr (Some x))) of
             Inl t \<Rightarrow> Inl t
           | Inr le \<Rightarrow>
               Inr \<lparr>sv_lastProcessedTimestamp = Some lp,
                    sv_processedEmailIds = Some (processedEmailIds s),
                    sv_totalEmailsProcessed = Some (totalEmailsProcessed s),
                    sv_totalRemindersCreated = Some (totalRemindersCreated s),
                    sv_lastErrorTimestamp = le,
                    sv_lastErrorMessage = lastErrorMessage s\<rparr>))"

text \<open>
  \<^verbatim>\<open>saveState\<close> catches whatever building or writing throws, and only logs it.
\<close>

definition saveState :: "env \<Rightarrow> daemon \<Rightarrow> daemon" where
  "saveState E d =
     (case stateToSave (state d) of
        Inl _ \<Rightarrow> d
      | Inr sv \<Rightarrow>
          (let d1 = called (WriteFile sv) (d\<lparr>n_write := n_write d + 1\<rparr>)
           in if writeFileOk E (n_write d) then d1\<lparr>stateFile := FileObject sv\<rparr> else d1))"

fun new_Date :: "date_text option \<Rightarrow> jsdate" where
  "new_Date None = InvalidDate"
| "new_Date (Some EmptyText) = InvalidDate"
| "new_Date (Some (TextOf d)) = d"

text \<open>
  The state \<^verbatim>\<open>loadState\<close> builds from the parsed object, with
  \<^verbatim>\<open>|| []\<close>, \<^verbatim>\<open>|| 0\<close> and the test of \<^verbatim>\<open>savedState.lastErrorTimestamp\<close>
  for truthiness.
\<close>

definition state_of_saved :: "saved_state \<Rightarrow> daemon_state" where
  "state_of_saved sv =
     \<lparr>lastProcessedTimestamp = new_Date (sv_lastProcessedTimestamp sv),
      processedEmailIds = new_Set (case sv_processedEmailIds sv of None \<Rightarrow> [] | Some a \<Rightarrow> a),
      totalEmailsProcessed =
        (case sv_totalEmailsProcessed sv of None \<Rightarrow> 0 | Some n \<Rightarrow> if n = 0 then 0 else n),
      totalRemindersCreated =
        (case sv_totalRemindersCreated sv of None \<Rightarrow> 0 | Some n \<Rightarrow> if n = 0 then 0 else n),
      lastErrorTimestamp =
        (case sv_lastErrorTimestamp sv of
           None \<Rightarrow> None
         | Some EmptyText \<Rightarrow> None
         | Some (TextOf dt) \<Rightarrow> Some dt),
      lastErrorMessage = sv_lastErrorMessage sv\<rparr>"

text \<open>
  \<^verbatim>\<open>loadState\<close>: whatever reading, parsing or building throws is caught and logged,
  and \<^verbatim>\<open>this.state\<close> is then left as it was.
\<close>

fun loadState :: "daemon \<Rightarrow> daemon" where
  "loadState d =
     (case stateFile d of
        FileObject sv \<Rightarrow> d\<lparr>state := state_of_saved sv\<rparr>
      | FileMissing \<Rightarrow> d
      | FileUnreadable \<Rightarrow> d
      | FileCorrupt _ \<Rightarrow> d
      | FileNull \<Rightarrow> d)"

subsection \<open>One processing cycle\<close>

text \<open>
  The \<^verbatim>\<open>try\<close> block of \<^verbatim>\<open>processEmailsOnce\<close>. It ends by throwing
  (\<open>Some t\<close>: \<^verbatim>\<open>loadRules\<close> rejects; the fetches catch their own rejections, the
  matcher does not throw and the drain catches what an item throws), by the early return when no new
  email was fetched, or at its last statement, the emission of
  \<^verbatim>\<open>processingComplete\<close>.
\<close>

definition cycle_try :: "env \<Rightarrow> int \<Rightarrow> daemon \<Rightarrow> js_thrown option \<times> daemon" where
  "cycle_try E startTime d =
     (let d1 = called LoadRules (d\<lparr>n_rules := n_rules d + 1\<rparr>)
      in case loadRules E (n_rules d) of
           Inl t \<Rightarrow> (Some t, d1)
         | Inr rs \<Rightarrow>
             (let (allEmails, d2) = fetchNewEmails E d1
              in if allEmails = [] then (None, d2)
                 else
                   (let filteredEmails = filterEmails E allEmails rs;
                        matchedEmails = filter (\<lambda>e. matchedRules e \<noteq> []) filteredEmails;
                        d3 = enqueue_matched matchedEmails rs d2;
                        d4 = processQueue E d3;
                        (t1, d5) = read_clock E d4;
                        d6 = d5\<lparr>state := (state d5)\<lparr>lastProcessedTimestamp := DateMs t1\<rparr>\<rparr>;
                        (t2, d7) = read_clock E d6
                    in (None, emit (ProcessingComplete (length matchedEmails) (t2 - startTime)
                                      (length (processingQueue d7))) d7))))"

definition cycle_catch :: "env \<Rightarrow> js_thrown \<Rightarrow> daemon \<Rightarrow> daemon" where
  "cycle_catch E t d =
     (let (tm, d1) = read_clock E d
      in emit (ProcessingError t)
           (d1\<lparr>state := (state d1)\<lparr>lastErrorTimestamp := Some (DateMs tm),
                                     lastErrorMessage := Some (error_message t)\<rparr>\<rparr>))"

definition cycle_finally :: "env \<Rightarrow> daemon \<Rightarrow> daemon" where
  "cycle_finally E d = saveState E (d\<lparr>isProcessing := False\<rparr>)"

definition processEmailsOnce :: "env \<Rightarrow> daemon \<Rightarrow> daemon" where
  "processEmailsOnce E d =
     (if isProcessing d then d
      else
        (let (startTime, d1) = read_clock E (d\<lparr>isProcessing := True\<rparr>)
         in case cycle_try E startTime d1 of
              (None, d2) \<Rightarrow> cycle_finally E d2
            | (Some t, d2) \<Rightarrow> cycle_finally E (cycle_catch E t d2)))"

subsection \<open>Starting, stopping, forcing a cycle\<close>

definition initializeEmailClients :: "env \<Rightarrow> daemon \<Rightarrow> js_thrown option \<times> daemon" where
  "initializeEmailClients E d =
     (let d1 = (if gmailClient d
                then (called (Initialize Gmail) d)\<lparr>gmailClient := (gmailInitialize E (n_start d) = None)\<rparr>
                else d);
          d2 = (if icloudClient d
                then (called (Initialize Icloud) d1)\<lparr>icloudClient := (icloudInitialize E (n_start d) = None)\<rparr>
                else d1)
      in if \<not> gmailClient d2 \<and> \<not> icloudClient d2
         then (Some (JsError ''No email clients available - check configuration''), d2)
         else (None, d2))"

definition testAppleRemindersAccess :: "env \<Rightarrow> daemon \<Rightarrow> js_thrown option \<times> daemon" where
  "testAppleRemindersAccess E d =
     (let d1 = called TestAccess d
      in case testAccess E (n_start d) of
           Inl t \<Rightarrow> (Some t, d1)
         | Inr res \<Rightarrow>
             if \<not> success res
             then (Some (JsError (''Apple Reminders not accessible: '' @
                           (case error res of None \<Rightarrow> ''undefined'' | Some m \<Rightarrow> m))), d1)
             else (None, d1))"

definition start_fail :: "js_thrown \<Rightarrow> daemon \<Rightarrow> js_thrown option \<times> daemon" where
  "start_fail t d = (Some t, emit (ErrorEvent t) (d\<lparr>isRunning := False\<rparr>))"

text \<open>
  \<^verbatim>\<open>start\<close>; the result \<open>Some t\<close> is the error it rethrows after emitting
  \<^verbatim>\<open>error\<close>.
\<close>

definition start :: "env \<Rightarrow> daemon \<Rightarrow> js_thrown option \<times> daemon" where
  "start E d =
     (if isRunning d then (None, d)
      else
        (let d0 = loadState d
         in case initializeEmailClients E d0 of
              (Some t, d1) \<Rightarrow> start_fail t (d1\<lparr>n_start := n_start d1 + 1\<rparr>)
            | (None, d1) \<Rightarrow>
                (case testAppleRemindersAccess E d1 of
                   (Some t, d2) \<Rightarrow> start_fail t (d2\<lparr>n_start := n_start d2 + 1\<rparr>)
                 | (None, d2) \<Rightarrow>
                     (let d3 = processEmailsOnce E (d2\<lparr>isRunning := True, n_start := n_start d2 + 1\<rparr>)
                      in (None, emit Started (d3\<lparr>intervalArmed := True\<rparr>))))))"

text \<open>
  \<^verbatim>\<open>stop\<close> waits while a cycle is in progress; between two operations of this
  sequential model none is, and \<open>None\<close> stands for a wait that does not end.
\<close>

definition stop :: "env \<Rightarrow> daemon \<Rightarrow> daemon option" where
  "stop E d =
     (if \<not> isRunning d then Some d
      else if isProcessing d then None
      else Some (emit Stopped (saveState E (d\<lparr>isRunning := False, intervalArmed := False\<rparr>))))"

definition forceProcessing :: "env \<Rightarrow> daemon \<Rightarrow> js_thrown + daemon" where
  "forceProcessing E d =
     (if \<not> isRunning d then Inl (JsError ''Daemon is not running'')
      else Inr (processEmailsOnce E d))"

subsection \<open>Reading the log\<close>

fun is_sink_call :: "effect \<Rightarrow> bool" where
  "is_sink_call (CreateReminder _ _ _) = True"
| "is_sink_call _ = False"

fun is_extract_call :: "effect \<Rightarrow> bool" where
  "is_extract_call (ProcessMultipleEmails _ _) = True"
| "is_extract_call _ = False"

fun is_created :: "effect \<Rightarrow> bool" where
  "is_created (Emit (ReminderCreated _ _ _ _)) = True"
| "is_created _ = False"

fun is_failed :: "effect \<Rightarrow> bool" where
  "is_failed (Emit (ProcessingFailed _ _ _)) = True"
| "is_failed _ = False"

fun is_cycle_event :: "effect \<Rightarrow> bool" where
  "is_cycle_event (Emit (ProcessingComplete _ _ _)) = True"
| "is_cycle_event (Emit (ProcessingError _)) = True"
| "is_cycle_event _ = False"

fun is_write :: "effect \<Rightarrow> bool" where
  "is_write (WriteFile _) = True"
| "is_write _ = False"

text \<open>
  The rule for which \<^verbatim>\<open>processQueueItem\<close> would call the sink for an
  extraction result, if it would: the result is at or above 25 and the rule is the first
  of the item's list with the result's rule name. The eligible results of an attempt are
  those with such a rule, in the order of the extractor's answer, each with its rule.
\<close>

definition eligible_rule :: "email_rule list \<Rightarrow> processing_result \<Rightarrow> email_rule option" where
  "eligible_rule rs r =
     (if confidence r < 25 then None else find (\<lambda>ru. name ru = ruleName r) rs)"

definition eligible ::
  "email_rule list \<Rightarrow> processing_result list \<Rightarrow> (processing_result \<times> email_rule) list" where
  "eligible rs results = List.map_filter (\<lambda>r. map_option (Pair r) (eligible_rule rs r)) results"

text \<open>
  The sink call for an eligible result of the email \<open>e\<close>, the sink's answer to it when
  it is the sink's call number \<open>n\<close>, whether that answer is a created reminder, and the
  value \<^verbatim>\<open>processQueueItem\<close> throws when it is not: the rejection itself, or an
  \<^verbatim>\<open>Error\<close> with the reported error as its message.
\<close>

definition sink_call :: "email_data \<Rightarrow> processing_result \<times> email_rule \<Rightarrow> effect" where
  "sink_call e p = CreateReminder (extractedFields (fst p)) (reminderTemplate (snd p)) (eid e)"

definition sink_answer ::
  "env \<Rightarrow> nat \<Rightarrow> email_data \<Rightarrow> processing_result \<times> email_rule
    \<Rightarrow> js_thrown + reminder_creation_result" where
  "sink_answer E n e p =
     createReminderFromExtractedData E n (extractedFields (fst p)) (reminderTemplate (snd p)) (eid e)"

fun accepted :: "js_thrown + reminder_creation_result \<Rightarrow> bool" where
  "accepted (Inr res) = success res"
| "accepted (Inl _) = False"

fun refusal :: "js_thrown + reminder_creation_result \<Rightarrow> js_thrown" where
  "refusal (Inl t) = t"
| "refusal (Inr res) = JsError (case error res of None \<Rightarrow> [] | Some m \<Rightarrow> m)"

text \<open>
  The \<^verbatim>\<open>reminderCreated\<close> event for an eligible result and the sink's answer to
  its call: the email id, the reminder id of the answer, the rule name and the
  confidence of the result.
\<close>

fun answered_id :: "js_thrown + reminder_creation_result \<Rightarrow> string option" where
  "answered_id (Inr res) = reminderId res"
| "answered_id (Inl _) = None"

definition created_event ::
  "email_data \<Rightarrow> processing_result \<times> email_rule \<Rightarrow> js_thrown + reminder_creation_result
    \<Rightarrow> effect" where
  "created_event e p a =
     Emit (ReminderCreated (eid e) (answered_id a) (ruleName (fst p)) (confidence (fst p)))"

text \<open>
  What one attempt on a queue item is expected to do with its eligible results, the
  sink being at its call number \<open>n\<close>: call the sink for the first; if the sink creates
  the reminder, emit \<^verbatim>\<open>reminderCreated\<close> for this result and answer and go on with
  the next result and the next call number; if not, stop there and throw. \<open>expected_log\<close>
  is the list of calls and events, \<open>expected_outcome\<close> the value thrown, if any.
\<close>

fun expected_log ::
  "env \<Rightarrow> nat \<Rightarrow> email_data \<Rightarrow> (processing_result \<times> email_rule) list \<Rightarrow> effect list" where
  "expected_log E n e [] = []"
| "expected_log E n e (p # ps) =
     sink_call e p #
       (if accepted (sink_answer E n e p)
        then created_event e p (sink_answer E n e p) # expected_log E (Suc n) e ps
        else [])"

fun expected_outcome ::
  "env \<Rightarrow> nat \<Rightarrow> email_data \<Rightarrow> (processing_result \<times> email_rule) list \<Rightarrow> js_thrown option" where
  "expected_outcome E n e [] = None"
| "expected_outcome E n e (p # ps) =
     (if accepted (sink_answer E n e p) then expected_outcome E (Suc n) e ps
      else Some (refusal (sink_answer E n e p)))"

text \<open>
  A sink that fails on every call for the message with id \<open>i\<close>, its call number \<open>n\<close>
  with the error \<open>m n\<close>: the promise is rejected with it, or the result says
  \<^verbatim>\<open>success: false\<close> with it. And a queue item that reaches the sink on every
  attempt: whenever the extractor is called for it, it returns results of which one is
  eligible.
\<close>

definition sink_refuses :: "env \<Rightarrow> string \<Rightarrow> (nat \<Rightarrow> string) \<Rightarrow> bool" where
  "sink_refuses E i m =
     (\<forall>n f t. \<not> accepted (createReminderFromExtractedData E n f t i)
              \<and> error_message (refusal (createReminderFromExtractedData E n f t i)) = m n)"

definition reaches_sink :: "env \<Rightarrow> processing_queue_item \<Rightarrow> bool" where
  "reaches_sink E x =
     (\<forall>n. \<exists>results. processMultipleEmails E n [email x] (rules x) = Inr results
                     \<and> eligible (rules x) results \<noteq> [])"

text \<open>
  The number of failed attempts after which \<^verbatim>\<open>processQueue\<close> gives an item up,
  as a function of \<^verbatim>\<open>retryAttempts\<close>: the first count of attempts, from 1 on, that
  is not below it. For a whole number from 1 on it is that number; for 0, a negative
  number or NaN it is 1; for 2.5 it is 3; with \<^verbatim>\<open>Infinity\<close> there is none.
\<close>

fun retry_limit :: "js_number \<Rightarrow> nat option" where
  "retry_limit (Finite r) = Some (max 1 (nat \<lceil>r\<rceil>))"
| "retry_limit NaN = Some 1"
| "retry_limit MinusInfinity = Some 1"
| "retry_limit PlusInfinity = None"

text \<open>
  The daemon as \<^verbatim>\<open>processEmailsOnce\<close> has it when its \<^verbatim>\<open>try\<close> block begins:
  \<^verbatim>\<open>isProcessing\<close> is set and the start time has been read.
\<close>

definition started :: "daemon \<Rightarrow> daemon" where
  "started d = d\<lparr>isProcessing := True, n_clock := n_clock d + 1\<rparr>"

definition new_item :: "email_data \<Rightarrow> email_rule list \<Rightarrow> processing_queue_item" where
  "new_item e rs =
     \<lparr>email = e, rules = rs, attempts = 0, lastAttemptTime = None, item_error = None\<rparr>"

definition valid_date :: "jsdate \<Rightarrow> bool" where
  "valid_date dt = (dt \<noteq> InvalidDate)"


text \<open>
  The log entries about the message with id \<open>x\<close>: an extraction call for it, a sink
  call for it, and the events \<^verbatim>\<open>reminderCreated\<close> and \<^verbatim>\<open>processingFailed\<close>
  that carry its id. A message is pending when the queue holds an item for it.
\<close>

fun mentions :: "string \<Rightarrow> effect \<Rightarrow> bool" where
  "mentions x (ProcessMultipleEmails es _) = (x \<in> set (map eid es))"
| "mentions x (CreateReminder _ _ i) = (i = x)"
| "mentions x (Emit (ReminderCreated i _ _ _)) = (i = x)"
| "mentions x (Emit (ProcessingFailed i _ _)) = (i = x)"
| "mentions x _ = False"

definition pending :: "string \<Rightarrow> daemon \<Rightarrow> bool" where
  "pending x d = (x \<in> set (map (\<lambda>q. eid (email q)) (processingQueue d)))"

text \<open>
  The \<^verbatim>\<open>processingFailed\<close> events and the extraction calls for the message with
  id \<open>x\<close>.
\<close>

definition failed_for :: "string \<Rightarrow> effect \<Rightarrow> bool" where
  "failed_for x c = (is_failed c \<and> mentions x c)"

definition extraction_for :: "string \<Rightarrow> effect \<Rightarrow> bool" where
  "extraction_for x c = (is_extract_call c \<and> mentions x c)"

text \<open>
  The daemon as \<^verbatim>\<open>processQueue\<close> has it when it comes to the queue item that
  follows the items \<open>pre\<close>: the live queue has been emptied and the items \<open>pre\<close> have
  been handled. And a queue item as a failed attempt leaves it, made when the daemon is
  \<open>d\<close>, by a sink that fails its call number \<open>n\<close> with the error \<open>m n\<close>: one more
  attempt, the time, and the error of the sink call just made.
\<close>

definition before_turn :: "env \<Rightarrow> processing_queue_item list \<Rightarrow> daemon \<Rightarrow> daemon" where
  "before_turn E pre d = drain_items E pre (d\<lparr>processingQueue := []\<rparr>)"

definition retried ::
  "env \<Rightarrow> (nat \<Rightarrow> string) \<Rightarrow> processing_queue_item \<Rightarrow> daemon \<Rightarrow> processing_queue_item" where
  "retried E m it d =
     it\<lparr>attempts := Suc (attempts it),
        lastAttemptTime := Some (DateMs (now E (n_clock d))),
        item_error := Some (m (n_sink d))\<rparr>"

subsection \<open>The fetch limit as the specification words it\<close>

definition ready_count :: "env \<Rightarrow> daemon \<Rightarrow> nat" where
  "ready_count E d = (if gmail_ready E d then 1 else 0) + (if icloud_ready E d then 1 else 0)"

text \<open>The specification's limit: \<^verbatim>\<open>maxEmailsPerScan / numReadySources\<close>, rounded down.\<close>

definition spec_fetch_limit :: "env \<Rightarrow> daemon \<Rightarrow> int" where
  "spec_fetch_limit E d = maxEmailsPerScan (config d) div int (ready_count E d)"

subsection \<open>Concrete inputs\<close>

definition ex_rule :: email_rule where
  "ex_rule =
     \<lparr>name = ''r1'', status = Active, providers = [Gmail], fromContains = None,
      fromDomains = None, subjectContains = None, bodyContains = None, subjectRegex = None,
      prompt = ''p'',
      reminderTemplate =
        \<lparr>titleTemplate = ''t'', listName = ''Facturas'', priority = Normal,
         daysBeforeReminder = 3, timeOfDay = ''09:00''\<rparr>\<rparr>"

definition ex_email :: email_data where
  "ex_email =
     \<lparr>eid = ''m1'', sender = ''a@b'', subject = ''s'', body = ''b'', date = DateMs 1000,
      provider = Gmail, processed = False, matchedRules = [''r1'']\<rparr>"

definition ex_result :: processing_result where
  "ex_result =
     \<lparr>emailId = ''m1'', ruleName = ''r1'',
      extractedFields = [(''monto'', ''1000''), (''vencimiento'', ''2025-03-01'')],
      confidence = 85, extractionMethod = ''ai-claude''\<rparr>"

definition ex_created :: reminder_creation_result where
  "ex_created = \<lparr>success = True, reminderId = Some ''R1'', error = None\<rparr>"

definition ex_refused :: reminder_creation_result where
  "ex_refused = \<lparr>success = False, reminderId = None, error = Some ''sink down''\<rparr>"

text \<open>Every collaborator answers, one Gmail message a fetch, the sink creates \<open>R1\<close>.\<close>

definition ex_env :: env where
  "ex_env =
     \<lparr>loadRules = (\<lambda>_. Inr [ex_rule]), gmailIsReady = (\<lambda>_. True),
      gmailGetEmails = (\<lambda>_ _. Inr [ex_email]), icloudIsReady = (\<lambda>_. True),
      icloudGetEmails = (\<lambda>_ _. Inr []), doesEmailMatchRule = (\<lambda>_ _. True),
      processMultipleEmails = (\<lambda>_ _ _. Inr [ex_result]),
      createReminderFromExtractedData = (\<lambda>_ _ _ _. Inr ex_created),
      now = (\<lambda>n. 5000 + int n), writeFileOk = (\<lambda>_. True),
      gmailInitialize = (\<lambda>_. None), icloudInitialize = (\<lambda>_. None),
      testAccess = (\<lambda>_. Inr \<lparr>success = True, reminderId = None, error = None\<rparr>)\<rparr>"

definition ex_configuration :: configuration where
  "ex_configuration =
     \<lparr>gmailConfigured = True, icloudConfigured = True, cfg_intervalMinutes = 30,
      cfg_maxEmailsPerScan = 50, cfg_retryAttempts = Finite 3\<rparr>"

definition ex_partial :: daemon_config_partial where
  "ex_partial =
     \<lparr>p_intervalMinutes = None, p_maxEmailsPerScan = None, p_retryAttempts = None,
      p_enableGmail = None, p_enableIcloud = None\<rparr>"

definition ex_daemon :: daemon where
  "ex_daemon = constructor ex_configuration ex_partial FileMissing"

text \<open>Only the Gmail client is ready.\<close>

definition ex_env_gmail_only :: env where
  "ex_env_gmail_only = ex_env\<lparr>icloudIsReady := (\<lambda>_. False)\<rparr>"

text \<open>
  A message dated after the cycles that fetch it, fetched by the first two cycles; the
  third cycle fetches another one. The sink refuses its calls number 0 and 2.
\<close>

definition ex_late_email :: email_data where
  "ex_late_email = ex_email\<lparr>eid := ''m2'', date := DateMs 9000000, matchedRules := []\<rparr>"

definition ex_other_email :: email_data where
  "ex_other_email = ex_email\<lparr>eid := ''m3'', date := DateMs 9000001, matchedRules := []\<rparr>"

definition ex_env_flaky :: env where
  "ex_env_flaky =
     ex_env\<lparr>gmailGetEmails := (\<lambda>n _. if n < 2 then Inr [ex_late_email] else Inr [ex_other_email]),
            createReminderFromExtractedData :=
              (\<lambda>n _ _ _. if n = 0 \<or> n = 2 then Inr ex_refused else Inr ex_created)\<rparr>"

definition ex_flaky_1 :: daemon where
  "ex_flaky_1 = processEmailsOnce ex_env_flaky ex_daemon"

definition ex_flaky_2 :: daemon where
  "ex_flaky_2 = processEmailsOnce ex_env_flaky ex_flaky_1"

definition ex_flaky_3 :: daemon where
  "ex_flaky_3 = processEmailsOnce ex_env_flaky ex_flaky_2"

text \<open>The daemon after one cycle in which \<open>m1\<close> is fetched and its reminder created.\<close>

definition ex_done :: daemon where
  "ex_done = processEmailsOnce ex_env ex_daemon"

text \<open>The state file \<^verbatim>\<open>{}\<close>, and the state the daemon has after loading it.\<close>

definition ex_empty_object :: saved_state where
  "ex_empty_object =
     \<lparr>sv_lastProcessedTimestamp = None, sv_processedEmailIds = None,
      sv_totalEmailsProcessed = None, sv_totalRemindersCreated = None,
      sv_lastErrorTimestamp = None, sv_lastErrorMessage = None\<rparr>"

definition ex_undated :: daemon_state where
  "ex_undated = initial_state\<lparr>lastProcessedTimestamp := InvalidDate\<rparr>"

definition ex_ab_state :: daemon_state where
  "ex_ab_state = initial_state\<lparr>processedEmailIds := [''a'', ''b''], totalEmailsProcessed := 5\<rparr>"

text \<open>
  A queue item for \<open>m1\<close>, extraction results at 25 and at 20, and collaborators for the
  confidence gate: an extractor that returns the results at 20 and at 25; one that
  returns the results at 85 and at 25, with a sink that refuses every call, or every
  call but the first; one that returns the result at 20 only.
\<close>

definition ex_item :: processing_queue_item where
  "ex_item = new_item ex_email [ex_rule]"

definition ex_result_25 :: processing_result where
  "ex_result_25 = ex_result\<lparr>extractedFields := [(''tipo'', ''b'')], confidence := 25\<rparr>"

definition ex_result_20 :: processing_result where
  "ex_result_20 = ex_result\<lparr>extractedFields := [(''tipo'', ''a'')], confidence := 20\<rparr>"

definition ex_env_gate :: env where
  "ex_env_gate = ex_env\<lparr>processMultipleEmails := (\<lambda>_ _ _. Inr [ex_result_20, ex_result_25])\<rparr>"

definition ex_env_down :: env where
  "ex_env_down =
     ex_env\<lparr>processMultipleEmails := (\<lambda>_ _ _. Inr [ex_result, ex_result_25]),
            createReminderFromExtractedData := (\<lambda>_ _ _ _. Inr ex_refused)\<rparr>"

definition ex_env_second_refused :: env where
  "ex_env_second_refused =
     ex_env\<lparr>processMultipleEmails := (\<lambda>_ _ _. Inr [ex_result, ex_result_25]),
            createReminderFromExtractedData :=
              (\<lambda>n _ _ _. if n = 0 then Inr ex_created else Inr ex_refused)\<rparr>"

definition ex_env_low :: env where
  "ex_env_low = ex_env\<lparr>processMultipleEmails := (\<lambda>_ _ _. Inr [ex_result_20])\<rparr>"

text \<open>
  The late message again, with an extractor that rejects its calls number 0 and 2,
  returns the result at 20 for call 1 and the result at 85 afterwards.
\<close>

definition ex_env_late_low :: env where
  "ex_env_late_low =
     ex_env\<lparr>gmailGetEmails := (\<lambda>n _. if n < 2 then Inr [ex_late_email] else Inr [ex_other_email]),
            processMultipleEmails :=
              (\<lambda>n _ _. if n = 0 \<or> n = 2 then Inl (JsError ''extractor down'')
                        else if n = 1 then Inr [ex_result_20] else Inr [ex_result])\<rparr>"

definition ex_low_1 :: daemon where
  "ex_low_1 = processEmailsOnce ex_env_late_low ex_daemon"

definition ex_low_2 :: daemon where
  "ex_low_2 = processEmailsOnce ex_env_late_low ex_low_1"

definition ex_low_3 :: daemon where
  "ex_low_3 = processEmailsOnce ex_env_late_low ex_low_2"

text \<open>The new daemon with the item for \<open>m1\<close> in its queue, and the same with no retries.\<close>

definition ex_queued :: daemon where
  "ex_queued = ex_daemon\<lparr>processingQueue := [ex_item]\<rparr>"

definition ex_no_retry :: daemon where
  "ex_no_retry = ex_queued\<lparr>config := (config ex_queued)\<lparr>retryAttempts := Finite 0\<rparr>\<rparr>"

text \<open>
  The same with \<^verbatim>\<open>retryAttempts\<close> 2.5, and the new daemon with two items in its
  queue, for \<open>m2\<close> and for \<open>m1\<close>. A sink that creates the reminders for other
  messages and refuses every call for \<open>m1\<close>, its call number 4 with the error \<open>gone\<close>
  and the others with \<open>busy\<close>.
\<close>

definition ex_fractional :: daemon where
  "ex_fractional = ex_queued\<lparr>config := (config ex_queued)\<lparr>retryAttempts := Finite (5 / 2)\<rparr>\<rparr>"

definition ex_item_late :: processing_queue_item where
  "ex_item_late = new_item (ex_late_email\<lparr>matchedRules := [''r1'']\<rparr>) [ex_rule]"

definition ex_two_queued :: daemon where
  "ex_two_queued = ex_daemon\<lparr>processingQueue := [ex_item_late, ex_item]\<rparr>"

definition ex_errors :: "nat \<Rightarrow> string" where
  "ex_errors n = (if n = 4 then ''gone'' else ''busy'')"

definition ex_env_worse :: env where
  "ex_env_worse =
     ex_env\<lparr>processMultipleEmails := (\<lambda>_ _ _. Inr [ex_result, ex_result_25]),
            createReminderFromExtractedData :=
              (\<lambda>n _ _ i. if i = ''m1''
                          then Inr \<lparr>success = False, reminderId = None, error = Some (ex_errors n)\<rparr>
                          else Inr ex_created)\<rparr>"

text \<open>A rule store that cannot be read.\<close>

definition ex_env_rules_fail :: env where
  "ex_env_rules_fail = ex_env\<lparr>loadRules := (\<lambda>_. Inl (JsError ''vault unreadable''))\<rparr>"

text \<open>
  The daemon started, with one cycle in which \<open>m1\<close> is processed, and stopped; then
  its state file is replaced by text that is not JSON.
\<close>

definition ex_stopped :: daemon where
  "ex_stopped =
     (case stop ex_env (snd (start ex_env ex_daemon)) of Some d \<Rightarrow> d | None \<Rightarrow> ex_daemon)"

definition ex_stopped_corrupt :: daemon where
  "ex_stopped_corrupt = ex_stopped\<lparr>stateFile := FileCorrupt ''invalid json''\<rparr>"


section \<open>Properties\<close>

lemmas model_defs =
  constructor_def merge_config_def initial_state_def processEmailsOnce_def read_clock_def
  cycle_try_def cycle_catch_def cycle_finally_def fetchNewEmails_def fetch_gmail_def
  fetch_icloud_def gmail_ready_def icloud_ready_def fetch_limit_def called_def emit_def
  is_new_def set_has_def set_add_def filterEmails_def addToQueue_def processQueue_def
  drain_item_def processQueueItem_def mark_processed_def record_failure_def saveState_def
  stateToSave_def js_increment_def

lemmas ex_defs =
  ex_rule_def ex_email_def ex_result_def ex_created_def ex_refused_def ex_env_def
  ex_configuration_def ex_partial_def ex_daemon_def ex_env_gmail_only_def ex_late_email_def
  ex_other_email_def ex_env_flaky_def ex_empty_object_def ex_undated_def ex_ab_state_def
  ex_item_def ex_result_25_def ex_result_20_def ex_env_gate_def ex_env_down_def
  ex_env_second_refused_def ex_env_low_def ex_env_late_low_def new_item_def
  ex_env_rules_fail_def ex_item_late_def ex_errors_def ex_env_worse_def

subsection \<open>What one queue item changes\<close>

lemma process_results_fields:
  "config (snd (process_results E e rs results d)) = config d"
  "processingQueue (snd (process_results E e rs results d)) = processingQueue d"
  "isProcessing (snd (process_results E e rs results d)) = isProcessing d"
  "isRunning (snd (process_results E e rs results d)) = isRunning d"
  "stateFile (snd (process_results E e rs results d)) = stateFile d"
  "n_clock (snd (process_results E e rs results d)) = n_clock d"
  "n_write (snd (process_results E e rs results d)) = n_write d"
  "n_extract (snd (process_results E e rs results d)) = n_extract d"
  "n_rules (snd (process_results E e rs results d)) = n_rules d"
  "n_fetch (snd (process_results E e rs results d)) = n_fetch d"
  "processedEmailIds (state (snd (process_results E e rs results d))) = processedEmailIds (state d)"
  "totalEmailsProcessed (state (snd (process_results E e rs results d))) = totalEmailsProcessed (state d)"
  "lastProcessedTimestamp (state (snd (process_results E e rs results d))) = lastProcessedTimestamp (state d)"
  "lastErrorTimestamp (state (snd (process_results E e rs results d))) = lastErrorTimestamp (state d)"
  "lastErrorMessage (state (snd (process_results E e rs results d))) = lastErrorMessage (state d)"
  "filter is_failed (log (snd (process_results E e rs results d))) = filter is_failed (log d)"
  "filter is_cycle_event (log (snd (process_results E e rs results d))) = filter is_cycle_event (log d)"
  "filter is_extract_call (log (snd (process_results E e rs results d))) = filter is_extract_call (log d)"
  "filter is_write (log (snd (process_results E e rs results d))) = filter is_write (log d)"
  by (induction results arbitrary: d)
     (auto simp: Let_def called_def emit_def split: option.splits sum.splits)

lemma processQueueItem_fields:
  "config (snd (processQueueItem E item d)) = config d"
  "processingQueue (snd (processQueueItem E item d)) = processingQueue d"
  "isProcessing (snd (processQueueItem E item d)) = isProcessing d"
  "isRunning (snd (processQueueItem E item d)) = isRunning d"
  "stateFile (snd (processQueueItem E item d)) = stateFile d"
  "n_clock (snd (processQueueItem E item d)) = n_clock d"
  "n_write (snd (processQueueItem E item d)) = n_write d"
  "n_rules (snd (processQueueItem E item d)) = n_rules d"
  "n_fetch (snd (processQueueItem E item d)) = n_fetch d"
  "processedEmailIds (state (snd (processQueueItem E item d))) = processedEmailIds (state d)"
  "totalEmailsProcessed (state (snd (processQueueItem E item d))) = totalEmailsProcessed (state d)"
  "lastProcessedTimestamp (state (snd (processQueueItem E item d))) = lastProcessedTimestamp (state d)"
  "lastErrorTimestamp (state (snd (processQueueItem E item d))) = lastErrorTimestamp (state d)"
  "lastErrorMessage (state (snd (processQueueItem E item d))) = lastErrorMessage (state d)"
  "filter is_failed (log (snd (processQueueItem E item d))) = filter is_failed (log d)"
  "filter is_cycle_event (log (snd (processQueueItem E item d))) = filter is_cycle_event (log d)"
  "filter is_write (log (snd (processQueueItem E item d))) = filter is_write (log d)"
  by (simp_all add: processQueueItem_def Let_def called_def process_results_fields split: sum.splits)

lemma drain_item_alt:
  "drain_item E item d =
     (case fst (processQueueItem E item d) of
        None \<Rightarrow> mark_processed item (snd (processQueueItem E item d))
      | Some t \<Rightarrow> record_failure E item t (snd (processQueueItem E item d)))"
  by (cases "processQueueItem E item d") (simp add: drain_item_def split: option.splits)

lemma drain_item_fields:
  "config (drain_item E item d) = config d"
  "isProcessing (drain_item E item d) = isProcessing d"
  "isRunning (drain_item E item d) = isRunning d"
  "stateFile (drain_item E item d) = stateFile d"
  "n_write (drain_item E item d) = n_write d"
  "n_rules (drain_item E item d) = n_rules d"
  "n_fetch (drain_item E item d) = n_fetch d"
  "lastProcessedTimestamp (state (drain_item E item d)) = lastProcessedTimestamp (state d)"
  "lastErrorTimestamp (state (drain_item E item d)) = lastErrorTimestamp (state d)"
  "lastErrorMessage (state (drain_item E item d)) = lastErrorMessage (state d)"
  "filter is_cycle_event (log (drain_item E item d)) = filter is_cycle_event (log d)"
  "filter is_write (log (drain_item E item d)) = filter is_write (log d)"
  by (simp_all add: drain_item_alt mark_processed_def record_failure_def read_clock_def emit_def
        Let_def processQueueItem_fields split: option.splits)

lemma drain_items_fields:
  "config (drain_items E items d) = config d"
  "isProcessing (drain_items E items d) = isProcessing d"
  "isRunning (drain_items E items d) = isRunning d"
  "stateFile (drain_items E items d) = stateFile d"
  "n_write (drain_items E items d) = n_write d"
  "n_rules (drain_items E items d) = n_rules d"
  "n_fetch (drain_items E items d) = n_fetch d"
  "lastProcessedTimestamp (state (drain_items E items d)) = lastProcessedTimestamp (state d)"
  "lastErrorTimestamp (state (drain_items E items d)) = lastErrorTimestamp (state d)"
  "lastErrorMessage (state (drain_items E items d)) = lastErrorMessage (state d)"
  "filter is_cycle_event (log (drain_items E items d)) = filter is_cycle_event (log d)"
  "filter is_write (log (drain_items E items d)) = filter is_write (log d)"
  by (induction items arbitrary: d) (simp_all add: drain_item_fields)

lemma processQueue_fields:
  "config (processQueue E d) = config d"
  "isProcessing (processQueue E d) = isProcessing d"
  "isRunning (processQueue E d) = isRunning d"
  "stateFile (processQueue E d) = stateFile d"
  "n_write (processQueue E d) = n_write d"
  "n_rules (processQueue E d) = n_rules d"
  "n_fetch (processQueue E d) = n_fetch d"
  "lastProcessedTimestamp (state (processQueue E d)) = lastProcessedTimestamp (state d)"
  "lastErrorTimestamp (state (processQueue E d)) = lastErrorTimestamp (state d)"
  "lastErrorMessage (state (processQueue E d)) = lastErrorMessage (state d)"
  "filter is_cycle_event (log (processQueue E d)) = filter is_cycle_event (log d)"
  "filter is_write (log (processQueue E d)) = filter is_write (log d)"
  by (simp_all add: processQueue_def drain_items_fields)

subsection \<open>The set of processed ids only grows\<close>

lemma drain_item_ids:
  "set (processedEmailIds (state d)) \<subseteq> set (processedEmailIds (state (drain_item E item d)))"
  by (auto simp: drain_item_alt mark_processed_def record_failure_def read_clock_def emit_def
        set_add_def Let_def processQueueItem_fields split: option.splits)

lemma drain_items_ids:
  "set (processedEmailIds (state d)) \<subseteq> set (processedEmailIds (state (drain_items E items d)))"
proof (induction items arbitrary: d)
  case Nil
  show ?case by simp
next
  case (Cons item items)
  have "set (processedEmailIds (state d)) \<subseteq> set (processedEmailIds (state (drain_item E item d)))"
    by (rule drain_item_ids)
  also have "\<dots> \<subseteq> set (processedEmailIds (state (drain_items E items (drain_item E item d))))"
    by (rule Cons.IH)
  finally show ?case by simp
qed

lemma processQueue_ids:
  "set (processedEmailIds (state d)) \<subseteq> set (processedEmailIds (state (processQueue E d)))"
  using drain_items_ids [of "d\<lparr>processingQueue := []\<rparr>" E "processingQueue d"]
  by (simp add: processQueue_def)

lemma fetchNewEmails_fields:
  "state (snd (fetchNewEmails E d)) = state d"
  "config (snd (fetchNewEmails E d)) = config d"
  "processingQueue (snd (fetchNewEmails E d)) = processingQueue d"
  "isProcessing (snd (fetchNewEmails E d)) = isProcessing d"
  "isRunning (snd (fetchNewEmails E d)) = isRunning d"
  "stateFile (snd (fetchNewEmails E d)) = stateFile d"
  "n_write (snd (fetchNewEmails E d)) = n_write d"
  "n_clock (snd (fetchNewEmails E d)) = n_clock d"
  "filter is_cycle_event (log (snd (fetchNewEmails E d))) = filter is_cycle_event (log d)"
  "filter is_write (log (snd (fetchNewEmails E d))) = filter is_write (log d)"
  by (simp_all add: fetchNewEmails_def fetch_gmail_def fetch_icloud_def called_def
        gmail_ready_def icloud_ready_def split: prod.splits)

lemma fetchNewEmails_new:
  "set (fst (fetchNewEmails E d)) \<subseteq> {e. is_new (state d) e}"
  by (auto simp: fetchNewEmails_def fetch_gmail_def fetch_icloud_def called_def
        gmail_ready_def icloud_ready_def split: prod.splits)

lemma enqueue_matched_fields:
  "state (enqueue_matched es rs d) = state d"
  "config (enqueue_matched es rs d) = config d"
  "isProcessing (enqueue_matched es rs d) = isProcessing d"
  "isRunning (enqueue_matched es rs d) = isRunning d"
  "stateFile (enqueue_matched es rs d) = stateFile d"
  "n_write (enqueue_matched es rs d) = n_write d"
  "n_clock (enqueue_matched es rs d) = n_clock d"
  "log (enqueue_matched es rs d) = log d"
  by (induction es arbitrary: d) (simp_all add: addToQueue_def)

lemma saveState_fields:
  "state (saveState E d) = state d"
  "config (saveState E d) = config d"
  "processingQueue (saveState E d) = processingQueue d"
  "isProcessing (saveState E d) = isProcessing d"
  "isRunning (saveState E d) = isRunning d"
  "filter is_cycle_event (log (saveState E d)) = filter is_cycle_event (log d)"
  by (simp_all add: saveState_def called_def Let_def split: sum.splits)

lemma cycle_try_ids:
  "set (processedEmailIds (state d)) \<subseteq> set (processedEmailIds (state (snd (cycle_try E t0 d))))"
proof -
  let ?d1 = "called LoadRules (d\<lparr>n_rules := n_rules d + 1\<rparr>)"
  have s1: "state ?d1 = state d" by (simp add: called_def)
  show ?thesis
  proof (cases "loadRules E (n_rules d)")
    case (Inl t)
    then show ?thesis by (simp add: cycle_try_def Let_def called_def)
  next
    case (Inr rs)
    obtain es d2 where f: "fetchNewEmails E ?d1 = (es, d2)" by (cases "fetchNewEmails E ?d1")
    have s2: "state d2 = state d"
      using fetchNewEmails_fields(1) [of E ?d1] f s1 by simp
    show ?thesis
    proof (cases "es = []")
      case True
      with Inr f s2 show ?thesis by (simp add: cycle_try_def Let_def)
    next
      case False
      let ?d3 = "enqueue_matched (filter (\<lambda>e. matchedRules e \<noteq> []) (filterEmails E es rs)) rs d2"
      have "set (processedEmailIds (state d)) \<subseteq> set (processedEmailIds (state (processQueue E ?d3)))"
        using processQueue_ids [of ?d3 E] s2 by (simp add: enqueue_matched_fields)
      with Inr f False show ?thesis
        by (simp add: cycle_try_def Let_def read_clock_def emit_def)
    qed
  qed
qed

lemma processEmailsOnce_ids:
  "set (processedEmailIds (state d)) \<subseteq> set (processedEmailIds (state (processEmailsOnce E d)))"
proof (cases "isProcessing d")
  case True
  then show ?thesis by (simp add: processEmailsOnce_def)
next
  case False
  let ?d1 = "d\<lparr>isProcessing := True, n_clock := n_clock d + 1\<rparr>"
  have "set (processedEmailIds (state ?d1)) \<subseteq>
          set (processedEmailIds (state (snd (cycle_try E (now E (n_clock d)) ?d1))))"
    by (rule cycle_try_ids)
  with False show ?thesis
    by (auto simp: processEmailsOnce_def read_clock_def cycle_finally_def cycle_catch_def emit_def
          saveState_fields Let_def split: prod.splits option.splits)
qed

lemma cycles_ids:
  "set (processedEmailIds (state d)) \<subseteq> set (processedEmailIds (state ((processEmailsOnce E ^^ n) d)))"
proof (induction n)
  case 0
  show ?case by simp
next
  case (Suc n)
  have "set (processedEmailIds (state ((processEmailsOnce E ^^ n) d))) \<subseteq>
        set (processedEmailIds (state (processEmailsOnce E ((processEmailsOnce E ^^ n) d))))"
    by (rule processEmailsOnce_ids)
  with Suc.IH show ?case by auto
qed

subsection \<open>Fetch limit\<close>

lemma fetchNewEmails_log:
  "log (snd (fetchNewEmails E d)) =
     log d @ (if gmail_ready E d then [GetEmails Gmail (maxEmailsPerScan (config d) div 2)] else [])
           @ (if icloud_ready E d then [GetEmails Icloud (maxEmailsPerScan (config d) div 2)] else [])"
  by (simp add: fetchNewEmails_def fetch_gmail_def fetch_icloud_def called_def gmail_ready_def
      icloud_ready_def fetch_limit_def split: prod.splits)

text \<open>
  C2, as amended: in every cycle each ready mail source is asked for
  \<open>floor (maxEmailsPerScan / 2)\<close> messages, whatever the number of ready sources; this is
  the specification's \<open>floor (maxEmailsPerScan / numReadySources)\<close> when both sources are
  ready, and with one ready source it is half of \<open>maxEmailsPerScan\<close>.
\<close>

theorem C2_fetch_limit_is_half:
  "log (snd (fetchNewEmails E d)) =
     log d @ (if gmail_ready E d then [GetEmails Gmail (maxEmailsPerScan (config d) div 2)] else [])
           @ (if icloud_ready E d then [GetEmails Icloud (maxEmailsPerScan (config d) div 2)] else [])
   \<and> (ready_count E d = 2 \<longrightarrow> spec_fetch_limit E d = maxEmailsPerScan (config d) div 2)"
  by (simp add: fetchNewEmails_log spec_fetch_limit_def)

theorem C2_fetch_limit_is_half_witness:
  "ready_count ex_env ex_daemon = 2 \<and> spec_fetch_limit ex_env ex_daemon = 25
   \<and> log (snd (fetchNewEmails ex_env ex_daemon)) = [GetEmails Gmail 25, GetEmails Icloud 25]"
  using C2_fetch_limit_is_half [of ex_env ex_daemon]
  by (simp add: ready_count_def model_defs ex_defs)

text \<open>
  C2 as stated fails: with one ready source and \<open>maxEmailsPerScan = 50\<close> the
  specification's limit is 50, and the code asks the source for 25.
\<close>

theorem C2_counterexample_one_ready_source:
  "ready_count ex_env_gmail_only ex_daemon = 1
   \<and> spec_fetch_limit ex_env_gmail_only ex_daemon = 50
   \<and> log (snd (fetchNewEmails ex_env_gmail_only ex_daemon)) = [GetEmails Gmail 25]"
  by (simp add: ready_count_def spec_fetch_limit_def model_defs ex_defs)

subsection \<open>Enqueueing\<close>

lemma enqueue_matched_queue:
  "processingQueue (enqueue_matched es rs d) =
     processingQueue d @
       map (\<lambda>e. new_item e rs)
         (filter (\<lambda>e. \<not> set_has (processedEmailIds (state d)) (eid e)) es)
   \<and> state (enqueue_matched es rs d) = state d"
  by (induction es arbitrary: d) (simp_all add: addToQueue_def new_item_def)

lemma enqueue_matched_processed:
  assumes "x \<in> set (processedEmailIds (state d))"
  shows "filter (\<lambda>q. eid (email q) = x) (processingQueue (enqueue_matched es rs d)) =
         filter (\<lambda>q. eid (email q) = x) (processingQueue d)"
proof -
  have "filter (\<lambda>q. eid (email q) = x)
          (map (\<lambda>e. new_item e rs)
             (filter (\<lambda>e. \<not> set_has (processedEmailIds (state d)) (eid e)) es)) = []"
    using assms by (auto simp: filter_empty_conv set_has_def new_item_def)
  then show ?thesis by (simp add: enqueue_matched_queue)
qed

text \<open>
  C3: a matched message is to be appended to the queue, with \<open>attempts = 0\<close>, only if
  its id is not in \<open>processedEmailIds\<close> and no item for that id is in the queue, so
  that after the enqueue step the queue never holds two items with the same message id.
  The enqueue step consults \<open>processedEmailIds\<close> only (\<open>enqueue_matched_queue\<close>), and
  on this input the queue holds two items for one message: the first cycle leaves the
  message \<open>m2\<close> in the queue for a retry; the second cycle fetches \<open>m2\<close> again, and its
  enqueue step appends a second item for \<open>m2\<close> although one is in the queue.
\<close>

theorem C3_two_items_for_one_message:
  "map (\<lambda>q. (eid (email q), attempts q)) (processingQueue ex_flaky_1) = [(''m2'', 1)]
   \<and> processedEmailIds (state ex_flaky_1) = []
   \<and> map eid (fst (fetchNewEmails ex_env_flaky ex_flaky_1)) = [''m2'']
   \<and> map (\<lambda>q. (eid (email q), attempts q))
        (processingQueue
           (enqueue_matched
              (filter (\<lambda>e. matchedRules e \<noteq> [])
                 (filterEmails ex_env_flaky (fst (fetchNewEmails ex_env_flaky ex_flaky_1)) [ex_rule]))
              [ex_rule] ex_flaky_1))
      = [(''m2'', 1), (''m2'', 0)]"
  by (simp add: ex_flaky_1_def model_defs ex_defs)

subsection \<open>Deduplication\<close>

lemma process_results_mentions:
  "eid e \<noteq> x \<Longrightarrow>
   filter (mentions x) (log (snd (process_results E e rs results d))) = filter (mentions x) (log d)"
  by (induction results arbitrary: d)
     (auto simp: Let_def called_def emit_def split: option.splits sum.splits)

lemma processQueueItem_mentions:
  "eid (email item) \<noteq> x \<Longrightarrow>
   filter (mentions x) (log (snd (processQueueItem E item d))) = filter (mentions x) (log d)"
  by (simp add: processQueueItem_def Let_def called_def process_results_mentions split: sum.splits)

lemma drain_item_other:
  assumes "x \<noteq> eid (email item)"
  shows "filter (mentions x) (log (drain_item E item d)) = filter (mentions x) (log d)"
    and "pending x (drain_item E item d) = pending x d"
  using assms
  by (auto simp: drain_item_alt mark_processed_def record_failure_def read_clock_def emit_def
        pending_def Let_def processQueueItem_fields processQueueItem_mentions split: option.splits)

lemma drain_items_other:
  assumes "x \<notin> set (map (\<lambda>q. eid (email q)) items)"
  shows "filter (mentions x) (log (drain_items E items d)) = filter (mentions x) (log d)
         \<and> pending x (drain_items E items d) = pending x d"
  using assms
  by (induction items arbitrary: d) (simp_all add: drain_item_other)

lemma processQueue_other:
  assumes "\<not> pending x d"
  shows "filter (mentions x) (log (processQueue E d)) = filter (mentions x) (log d)"
    and "\<not> pending x (processQueue E d)"
  using assms drain_items_other [of x "processingQueue d" E "d\<lparr>processingQueue := []\<rparr>"]
  by (simp_all add: processQueue_def pending_def)

lemma enqueue_matched_pending:
  assumes "x \<in> set (processedEmailIds (state d))"
  shows "pending x (enqueue_matched es rs d) = pending x d"
  using assms by (auto simp: pending_def enqueue_matched_queue set_has_def new_item_def)

lemma fetchNewEmails_mentions:
  "filter (mentions x) (log (snd (fetchNewEmails E d))) = filter (mentions x) (log d)"
  by (simp add: fetchNewEmails_log)

lemma saveState_mentions:
  "filter (mentions x) (log (saveState E d)) = filter (mentions x) (log d)"
  "pending x (saveState E d) = pending x d"
  by (simp_all add: saveState_def called_def Let_def pending_def split: sum.splits)

lemma cycle_try_settled:
  assumes x: "x \<in> set (processedEmailIds (state d))" and np: "\<not> pending x d"
  shows "filter (mentions x) (log (snd (cycle_try E t0 d))) = filter (mentions x) (log d)
         \<and> \<not> pending x (snd (cycle_try E t0 d))"
proof -
  let ?d1 = "called LoadRules (d\<lparr>n_rules := n_rules d + 1\<rparr>)"
  have d1: "state ?d1 = state d" "\<not> pending x ?d1"
    "filter (mentions x) (log ?d1) = filter (mentions x) (log d)"
    using np by (simp_all add: called_def pending_def)
  show ?thesis
  proof (cases "loadRules E (n_rules d)")
    case (Inl t)
    with d1 show ?thesis by (simp add: cycle_try_def Let_def)
  next
    case (Inr rs)
    obtain es d2 where f: "fetchNewEmails E ?d1 = (es, d2)" by (cases "fetchNewEmails E ?d1")
    have d2: "state d2 = state d" "\<not> pending x d2"
      "filter (mentions x) (log d2) = filter (mentions x) (log d)"
      using fetchNewEmails_fields(1,3) [of E ?d1] fetchNewEmails_mentions [of x E ?d1] f d1
      by (simp_all add: pending_def)
    show ?thesis
    proof (cases "es = []")
      case True
      with Inr f d2 show ?thesis by (simp add: cycle_try_def Let_def)
    next
      case False
      let ?d3 = "enqueue_matched (filter (\<lambda>e. matchedRules e \<noteq> []) (filterEmails E es rs)) rs d2"
      have d3: "\<not> pending x ?d3" "filter (mentions x) (log ?d3) = filter (mentions x) (log d)"
        using x d2 by (simp_all add: enqueue_matched_pending enqueue_matched_fields)
      have d4: "\<not> pending x (processQueue E ?d3)"
        "filter (mentions x) (log (processQueue E ?d3)) = filter (mentions x) (log d)"
        using processQueue_other [OF d3(1), of E] d3(2) by simp_all
      with Inr f False show ?thesis
        by (simp add: cycle_try_def Let_def read_clock_def emit_def pending_def)
    qed
  qed
qed

lemma processEmailsOnce_settled:
  assumes x: "x \<in> set (processedEmailIds (state d))" and np: "\<not> pending x d"
  shows "filter (mentions x) (log (processEmailsOnce E d)) = filter (mentions x) (log d)
         \<and> \<not> pending x (processEmailsOnce E d)"
proof (cases "isProcessing d")
  case True
  with np show ?thesis by (simp add: processEmailsOnce_def)
next
  case False
  let ?d1 = "d\<lparr>isProcessing := True, n_clock := n_clock d + 1\<rparr>"
  have "x \<in> set (processedEmailIds (state ?d1))" "\<not> pending x ?d1"
    using x np by (simp_all add: pending_def)
  from cycle_try_settled [OF this, of E "now E (n_clock d)"]
  have "filter (mentions x) (log (snd (cycle_try E (now E (n_clock d)) ?d1))) = filter (mentions x) (log d)"
    "\<not> pending x (snd (cycle_try E (now E (n_clock d)) ?d1))"
    by simp_all
  with False show ?thesis
    by (auto simp: processEmailsOnce_def read_clock_def cycle_finally_def cycle_catch_def emit_def
          saveState_mentions saveState_fields pending_def Let_def split: prod.splits option.splits)
qed

lemma cycles_settled:
  assumes x: "x \<in> set (processedEmailIds (state d))" and np: "\<not> pending x d"
  shows "x \<in> set (processedEmailIds (state ((processEmailsOnce E ^^ n) d)))
         \<and> \<not> pending x ((processEmailsOnce E ^^ n) d)
         \<and> filter (mentions x) (log ((processEmailsOnce E ^^ n) d)) = filter (mentions x) (log d)"
proof (induction n)
  case 0
  from x np show ?case by simp
next
  case (Suc n)
  let ?dn = "(processEmailsOnce E ^^ n) d"
  from Suc.IH have a: "x \<in> set (processedEmailIds (state ?dn))" and b: "\<not> pending x ?dn"
    and c: "filter (mentions x) (log ?dn) = filter (mentions x) (log d)" by simp_all
  from processEmailsOnce_settled [OF a b, of E] processEmailsOnce_ids [of ?dn E] a c
  show ?case by auto
qed

lemma stop_ids:
  "stop E d = Some d' \<Longrightarrow> processedEmailIds (state d') = processedEmailIds (state d)"
  by (auto simp: stop_def emit_def saveState_fields split: if_splits)

lemma forceProcessing_ids:
  "forceProcessing E d = Inr d' \<Longrightarrow>
   set (processedEmailIds (state d)) \<subseteq> set (processedEmailIds (state d'))"
  using processEmailsOnce_ids [where d = d and E = E] by (auto simp: forceProcessing_def split: if_splits)

text \<open>
  What the code does guarantee. During operation \<open>processedEmailIds\<close> only grows (no
  cycle, forced cycle or stop removes an id), and for every message whose id \<open>x\<close> is in
  it, every later cycle drops the message at the fetch filter, and the enqueue step adds
  no queue item for \<open>x\<close>. So, when no item for \<open>x\<close> is waiting in the queue, none is
  ever queued again, and no later cycle calls the extractor or the sink for \<open>x\<close> or
  emits an event for it.
\<close>

lemma processed_ids_grow_and_exclude:
  assumes "x \<in> set (processedEmailIds (state d))"
  shows "x \<in> set (processedEmailIds (state ((processEmailsOnce E ^^ n) d)))
    \<and> (case forceProcessing E d of Inl _ \<Rightarrow> True
        | Inr d' \<Rightarrow> x \<in> set (processedEmailIds (state d')))
    \<and> (case stop E d of None \<Rightarrow> True
        | Some d' \<Rightarrow> x \<in> set (processedEmailIds (state d')))
    \<and> x \<notin> set (map eid (fst (fetchNewEmails E d)))
    \<and> filter (\<lambda>q. eid (email q) = x) (processingQueue (enqueue_matched es rs d)) =
        filter (\<lambda>q. eid (email q) = x) (processingQueue d)
    \<and> (\<not> pending x d \<longrightarrow>
          \<not> pending x ((processEmailsOnce E ^^ n) d)
          \<and> filter (mentions x) (log ((processEmailsOnce E ^^ n) d))
              = filter (mentions x) (log d))"
proof -
  have grow: "x \<in> set (processedEmailIds (state ((processEmailsOnce E ^^ n) d)))"
    using cycles_ids [where d = d and E = E and n = n] assms by auto
  have force: "case forceProcessing E d of Inl _ \<Rightarrow> True
      | Inr d' \<Rightarrow> x \<in> set (processedEmailIds (state d'))"
    using forceProcessing_ids [where E = E and d = d] assms by (auto split: sum.splits)
  have stopped: "case stop E d of None \<Rightarrow> True
      | Some d' \<Rightarrow> x \<in> set (processedEmailIds (state d'))"
    using stop_ids [where E = E and d = d] assms by (auto split: option.splits)
  have fetch: "x \<notin> set (map eid (fst (fetchNewEmails E d)))"
    using fetchNewEmails_new [where E = E and d = d] assms by (auto simp: is_new_def set_has_def)
  have enq: "filter (\<lambda>q. eid (email q) = x) (processingQueue (enqueue_matched es rs d)) =
        filter (\<lambda>q. eid (email q) = x) (processingQueue d)"
    using assms by (rule enqueue_matched_processed)
  have later: "\<not> pending x d \<longrightarrow>
          \<not> pending x ((processEmailsOnce E ^^ n) d)
          \<and> filter (mentions x) (log ((processEmailsOnce E ^^ n) d))
              = filter (mentions x) (log d)"
    using cycles_settled [OF assms, where E = E and n = n] by simp
  from grow force stopped fetch enq later show ?thesis by simp
qed

text \<open>
  C1: \<open>processedEmailIds\<close> only grows, and a message whose id is in it is never queued,
  extracted or turned into a reminder again. The first part holds
  (\<open>processed_ids_grow_and_exclude\<close>); the second fails on this input. The message
  \<open>m2\<close> is dated after the cycles that fetch it. Cycle 1 fetches it and the sink
  refuses, so it waits in the queue. Cycle 2 fetches it again and queues a second item,
  since the enqueue step does not look into the queue: the first item succeeds, which
  puts \<open>m2\<close> into \<open>processedEmailIds\<close>, and the second is refused and waits. Cycle 3
  then calls the extractor and the sink for \<open>m2\<close>, and a second reminder is created
  for it.
\<close>

theorem C1_processed_message_reprocessed:
  "''m2'' \<in> set (processedEmailIds (state ex_flaky_2))
   \<and> filter is_created (log ex_flaky_2) = [Emit (ReminderCreated ''m2'' (Some ''R1'') ''r1'' 85)]
   \<and> map (\<lambda>q. (eid (email q), attempts q)) (processingQueue ex_flaky_2) = [(''m2'', 1)]
   \<and> ex_flaky_3 = processEmailsOnce ex_env_flaky ex_flaky_2
   \<and> filter (mentions ''m2'') (drop (length (log ex_flaky_2)) (log ex_flaky_3)) =
       [ProcessMultipleEmails [ex_late_email\<lparr>matchedRules := [''r1'']\<rparr>] [ex_rule],
        CreateReminder (extractedFields ex_result) (reminderTemplate ex_rule) ''m2'',
        Emit (ReminderCreated ''m2'' (Some ''R1'') ''r1'' 85)]
   \<and> filter (\<lambda>c. is_created c \<and> mentions ''m2'' c) (log ex_flaky_3) =
       [Emit (ReminderCreated ''m2'' (Some ''R1'') ''r1'' 85),
        Emit (ReminderCreated ''m2'' (Some ''R1'') ''r1'' 85)]"
  by (simp add: ex_flaky_3_def ex_flaky_2_def ex_flaky_1_def model_defs ex_defs)

subsection \<open>Loading\<close>

lemma loadState_bad_file:
  "stateFile d = FileMissing \<or> stateFile d = FileUnreadable \<or> stateFile d = FileCorrupt txt
   \<Longrightarrow> loadState d = d"
  by auto

lemma loadState_fields:
  "isRunning (loadState d) = isRunning d"
  "gmailClient (loadState d) = gmailClient d"
  "icloudClient (loadState d) = icloudClient d"
  "n_start (loadState d) = n_start d"
  by (simp_all split: state_file.splits)

lemma initializeEmailClients_outcome:
  "fst (initializeEmailClients E d) =
     (if \<not> (gmailClient d \<and> gmailInitialize E (n_start d) = None)
         \<and> \<not> (icloudClient d \<and> icloudInitialize E (n_start d) = None)
      then Some (JsError ''No email clients available - check configuration'') else None)"
  "n_start (snd (initializeEmailClients E d)) = n_start d"
  by (auto simp: initializeEmailClients_def called_def Let_def)

lemma testAppleRemindersAccess_outcome:
  "fst (testAppleRemindersAccess E d) =
     (case testAccess E (n_start d) of
        Inl t \<Rightarrow> Some t
      | Inr res \<Rightarrow>
          if \<not> success res
          then Some (JsError (''Apple Reminders not accessible: '' @
                  (case error res of None \<Rightarrow> ''undefined'' | Some m \<Rightarrow> m)))
          else None)"
  by (simp add: testAppleRemindersAccess_def called_def Let_def split: sum.splits)

lemma start_outcome:
  "fst (start E d) =
     (if isRunning d then None
      else case fst (initializeEmailClients E (loadState d)) of
             Some t \<Rightarrow> Some t
           | None \<Rightarrow> fst (testAppleRemindersAccess E (snd (initializeEmailClients E (loadState d)))))"
proof (cases "isRunning d")
  case True
  then show ?thesis by (simp add: start_def)
next
  case False
  obtain r1 d1 where i: "initializeEmailClients E (loadState d) = (r1, d1)"
    by (cases "initializeEmailClients E (loadState d)")
  obtain r2 d2 where t: "testAppleRemindersAccess E d1 = (r2, d2)"
    by (cases "testAppleRemindersAccess E d1")
  from False i t show ?thesis
    by (cases r1; cases r2) (simp_all add: start_def start_fail_def Let_def del: loadState.simps)
qed

lemma start_outcome_ignores_file:
  "fst (start E (constructor c p f)) = fst (start E (constructor c p f'))"
  by (simp add: start_outcome initializeEmailClients_outcome testAppleRemindersAccess_outcome
        loadState_fields constructor_def Let_def del: loadState.simps)

lemma start_outcome_ignores_any_file:
  "fst (start E (d\<lparr>stateFile := f\<rparr>)) = fst (start E (d\<lparr>stateFile := g\<rparr>))"
  by (simp add: start_outcome initializeEmailClients_outcome testAppleRemindersAccess_outcome
        loadState_fields del: loadState.simps)

text \<open>
  C8, as amended: for every state file that is missing, unreadable or not parseable as
  JSON, loading the state does not throw (\<open>loadState\<close> has no failing outcome) and
  leaves the state as it was. For a newly constructed daemon that is the default empty
  state: the epoch, no processed id, both counters 0, no last error. And \<open>start\<close>,
  of a new daemon or of any other, fails with such a file exactly when it fails with any
  other file: never because of the state file.
\<close>

theorem C8_bad_state_file_gives_default_state:
  assumes "f = FileMissing \<or> f = FileUnreadable \<or> f = FileCorrupt junk"
  shows "state (loadState (constructor c p f)) =
           \<lparr>lastProcessedTimestamp = DateMs 0, processedEmailIds = [],
            totalEmailsProcessed = 0, totalRemindersCreated = 0,
            lastErrorTimestamp = None, lastErrorMessage = None\<rparr>
       \<and> loadState (d\<lparr>stateFile := f\<rparr>) = d\<lparr>stateFile := f\<rparr>
       \<and> fst (start E (constructor c p f)) = fst (start E (constructor c p g))
       \<and> fst (start E (d\<lparr>stateFile := f\<rparr>)) = fst (start E (d\<lparr>stateFile := g\<rparr>))"
proof -
  have a: "state (loadState (constructor c p f)) =
           \<lparr>lastProcessedTimestamp = DateMs 0, processedEmailIds = [],
            totalEmailsProcessed = 0, totalRemindersCreated = 0,
            lastErrorTimestamp = None, lastErrorMessage = None\<rparr>"
    using assms by (auto simp: constructor_def initial_state_def Let_def)
  have b: "loadState (d\<lparr>stateFile := f\<rparr>) = d\<lparr>stateFile := f\<rparr>"
    using assms by auto
  from a b start_outcome_ignores_file [of E c p f g]
    start_outcome_ignores_any_file [where E = E and d = d and f = f and g = g]
  show ?thesis by simp
qed

theorem C8_bad_state_file_gives_default_state_witness:
  "state (loadState (constructor ex_configuration ex_partial (FileCorrupt ''invalid json''))) =
     \<lparr>lastProcessedTimestamp = DateMs 0, processedEmailIds = [],
      totalEmailsProcessed = 0, totalRemindersCreated = 0,
      lastErrorTimestamp = None, lastErrorMessage = None\<rparr>
   \<and> fst (start ex_env (constructor ex_configuration ex_partial (FileCorrupt ''invalid json'')))
       = None"
proof -
  have "fst (start ex_env (constructor ex_configuration ex_partial FileMissing)) = None"
    by (simp add: start_outcome initializeEmailClients_outcome testAppleRemindersAccess_outcome
          loadState_fields constructor_def merge_config_def ex_defs del: loadState.simps)
  with C8_bad_state_file_gives_default_state
    [where f = "FileCorrupt ''invalid json''" and junk = "''invalid json''"
       and c = ex_configuration and p = ex_partial and E = ex_env and g = FileMissing
       and d = ex_daemon]
  show ?thesis by simp
qed

text \<open>
  C8 as stated fails for a daemon that is started again after \<open>stop\<close>. The daemon
  has processed \<open>m1\<close> and is stopped; its state file then holds text that is not
  JSON. Loading leaves the state in memory as it is, with \<open>m1\<close> in
  \<open>processedEmailIds\<close> and both counters at 1, not the default empty state, and so
  does the \<open>start\<close> that calls it.
\<close>

theorem C8_counterexample_restart_keeps_state:
  "stop ex_env (snd (start ex_env ex_daemon)) = Some ex_stopped
   \<and> \<not> isRunning ex_stopped
   \<and> stateFile ex_stopped_corrupt = FileCorrupt ''invalid json''
   \<and> processedEmailIds (state (loadState ex_stopped_corrupt)) = [''m1'']
   \<and> totalEmailsProcessed (state (loadState ex_stopped_corrupt)) = 1
   \<and> totalRemindersCreated (state (loadState ex_stopped_corrupt)) = 1
   \<and> lastProcessedTimestamp (state (loadState ex_stopped_corrupt)) = DateMs 5001
   \<and> fst (start ex_env ex_stopped_corrupt) = None
   \<and> processedEmailIds (state (snd (start ex_env ex_stopped_corrupt))) = [''m1'']
   \<and> totalEmailsProcessed (state (snd (start ex_env ex_stopped_corrupt))) = 1"
  by (simp add: ex_stopped_corrupt_def ex_stopped_def start_def stop_def start_fail_def
        initializeEmailClients_def testAppleRemindersAccess_def model_defs ex_defs)

subsection \<open>Round trip\<close>

lemma foldl_set_add_set: "set (foldl set_add acc xs) = set acc \<union> set xs"
  by (induction xs arbitrary: acc) (auto simp: set_add_def)

lemma foldl_set_add_distinct: "distinct (acc @ xs) \<Longrightarrow> foldl set_add acc xs = acc @ xs"
  by (induction xs arbitrary: acc) (auto simp: set_add_def)

lemma new_Set_set: "set (new_Set xs) = set xs"
  by (simp add: new_Set_def foldl_set_add_set)

lemma new_Set_distinct: "distinct xs \<Longrightarrow> new_Set xs = xs"
  using foldl_set_add_distinct [of "[]" xs] by (simp add: new_Set_def)

lemma stateToSave_valid:
  assumes "valid_date (lastProcessedTimestamp s)"
    and "case lastErrorTimestamp s of None \<Rightarrow> True | Some dt \<Rightarrow> valid_date dt"
  shows "stateToSave s =
     Inr \<lparr>sv_lastProcessedTimestamp = Some (TextOf (lastProcessedTimestamp s)),
          sv_processedEmailIds = Some (processedEmailIds s),
          sv_totalEmailsProcessed = Some (totalEmailsProcessed s),
          sv_totalRemindersCreated = Some (totalRemindersCreated s),
          sv_lastErrorTimestamp = map_option TextOf (lastErrorTimestamp s),
          sv_lastErrorMessage = lastErrorMessage s\<rparr>"
proof -
  obtain t where t: "lastProcessedTimestamp s = DateMs t"
    using assms(1) by (cases "lastProcessedTimestamp s") (simp_all add: valid_date_def)
  show ?thesis
  proof (cases "lastErrorTimestamp s")
    case None
    with t show ?thesis by (simp add: stateToSave_def)
  next
    case (Some dt)
    with assms(2) obtain u where "dt = DateMs u"
      by (cases dt) (simp_all add: valid_date_def)
    with Some t show ?thesis by (simp add: stateToSave_def)
  qed
qed

lemma roundtrip_state:
  assumes "valid_date (lastProcessedTimestamp s)"
    and "case lastErrorTimestamp s of None \<Rightarrow> True | Some dt \<Rightarrow> valid_date dt"
  shows "\<exists>sv. stateToSave s = Inr sv
           \<and> state_of_saved sv = s\<lparr>processedEmailIds := new_Set (processedEmailIds s)\<rparr>"
  using stateToSave_valid [OF assms]
  by (cases "lastErrorTimestamp s") (simp_all add: state_of_saved_def)

text \<open>
  C9, as amended: for every DaemonState whose timestamps are valid dates
  (\<open>lastProcessedTimestamp\<close>, and \<open>lastErrorTimestamp\<close> when there is one), serializing
  it to the persisted format (the ids as an array, the timestamps as ISO strings, the
  absent last-error keys left out) succeeds, and loading the result back gives an equal
  id set, equal counters, equal timestamps and an equal last-error message, also when
  the last error is absent; the whole state is the same when its ids are without
  repetition. When the write succeeds, this is the state \<open>loadState\<close> reads after
  \<open>saveState\<close>.
\<close>

theorem C9_state_round_trip:
  assumes "valid_date (lastProcessedTimestamp s)"
    and "case lastErrorTimestamp s of None \<Rightarrow> True | Some dt \<Rightarrow> valid_date dt"
  shows "\<exists>sv. stateToSave s = Inr sv
      \<and> sv_processedEmailIds sv = Some (processedEmailIds s)
      \<and> set (processedEmailIds (state_of_saved sv)) = set (processedEmailIds s)
      \<and> totalEmailsProcessed (state_of_saved sv) = totalEmailsProcessed s
      \<and> totalRemindersCreated (state_of_saved sv) = totalRemindersCreated s
      \<and> lastProcessedTimestamp (state_of_saved sv) = lastProcessedTimestamp s
      \<and> lastErrorTimestamp (state_of_saved sv) = lastErrorTimestamp s
      \<and> lastErrorMessage (state_of_saved sv) = lastErrorMessage s
      \<and> (distinct (processedEmailIds s) \<longrightarrow> state_of_saved sv = s)
      \<and> (state d = s \<and> writeFileOk E (n_write d) \<longrightarrow>
            state (loadState (saveState E d)) = state_of_saved sv)"
proof -
  from roundtrip_state [OF assms] obtain sv where sv: "stateToSave s = Inr sv"
    and again: "state_of_saved sv = s\<lparr>processedEmailIds := new_Set (processedEmailIds s)\<rparr>"
    by blast
  have ids: "sv_processedEmailIds sv = Some (processedEmailIds s)"
    using sv stateToSave_valid [OF assms] by auto
  have same: "distinct (processedEmailIds s) \<longrightarrow> state_of_saved sv = s"
    using again by (simp add: new_Set_distinct)
  have onfile: "state d = s \<and> writeFileOk E (n_write d) \<longrightarrow>
            state (loadState (saveState E d)) = state_of_saved sv"
    using sv by (simp add: saveState_def called_def Let_def)
  from sv ids same onfile show ?thesis
    by (intro exI [where x = sv]) (simp add: again new_Set_set)
qed

theorem C9_state_round_trip_witness:
  "\<exists>sv. stateToSave ex_ab_state = Inr sv
      \<and> sv_processedEmailIds sv = Some [''a'', ''b'']
      \<and> set (processedEmailIds (state_of_saved sv)) = {''a'', ''b''}
      \<and> totalEmailsProcessed (state_of_saved sv) = 5
      \<and> lastErrorTimestamp (state_of_saved sv) = None
      \<and> lastErrorMessage (state_of_saved sv) = None
      \<and> state_of_saved sv = ex_ab_state"
proof -
  have v: "valid_date (lastProcessedTimestamp ex_ab_state)"
    "case lastErrorTimestamp ex_ab_state of None \<Rightarrow> True | Some dt \<Rightarrow> valid_date dt"
    by (simp_all add: ex_ab_state_def initial_state_def valid_date_def)
  from C9_state_round_trip [OF v, where d = ex_daemon and E = ex_env]
  obtain sv where "stateToSave ex_ab_state = Inr sv
      \<and> sv_processedEmailIds sv = Some (processedEmailIds ex_ab_state)
      \<and> set (processedEmailIds (state_of_saved sv)) = set (processedEmailIds ex_ab_state)
      \<and> totalEmailsProcessed (state_of_saved sv) = totalEmailsProcessed ex_ab_state
      \<and> lastErrorTimestamp (state_of_saved sv) = lastErrorTimestamp ex_ab_state
      \<and> lastErrorMessage (state_of_saved sv) = lastErrorMessage ex_ab_state
      \<and> (distinct (processedEmailIds ex_ab_state) \<longrightarrow> state_of_saved sv = ex_ab_state)"
    by blast
  then show ?thesis
    by (intro exI [where x = sv]) (simp add: ex_ab_state_def initial_state_def)
qed

text \<open>
  C9 as stated fails. After loading the state file \<^verbatim>\<open>{}\<close> the daemon's
  \<open>lastProcessedTimestamp\<close> is the Invalid Date; serializing that state throws
  (\<^verbatim>\<open>toISOString\<close> on an Invalid Date), \<open>saveState\<close> catches it and writes
  nothing, so there is no persisted form to load back.
\<close>

theorem C9_counterexample_invalid_date:
  "state (loadState (constructor ex_configuration ex_partial (FileObject ex_empty_object)))
     = ex_undated
   \<and> stateToSave ex_undated = Inl (JsError ''Invalid time value'')
   \<and> saveState ex_env (ex_daemon\<lparr>state := ex_undated\<rparr>) = ex_daemon\<lparr>state := ex_undated\<rparr>
   \<and> stateFile (ex_daemon\<lparr>state := ex_undated\<rparr>) = FileMissing
   \<and> state (loadState (saveState ex_env (ex_daemon\<lparr>state := ex_undated\<rparr>))) = ex_undated"
  by (simp add: state_of_saved_def new_Set_def model_defs ex_defs)

subsection \<open>One attempt on a queue item\<close>

lemma eligible_simps:
  "eligible rs [] = []"
  "eligible_rule rs r = None \<Longrightarrow> eligible rs (r # results) = eligible rs results"
  "eligible_rule rs r = Some ru \<Longrightarrow> eligible rs (r # results) = (r, ru) # eligible rs results"
  by (simp_all add: eligible_def map_filter_simps)

lemma process_results_skip:
  "eligible_rule rs r = None \<Longrightarrow>
   process_results E e rs (r # results) d = process_results E e rs results d"
  by (auto simp: eligible_rule_def split: option.splits if_splits)

lemma process_results_refused:
  assumes "eligible_rule rs r = Some ru" and "\<not> accepted (sink_answer E (n_sink d) e (r, ru))"
  shows "process_results E e rs (r # results) d =
           (Some (refusal (sink_answer E (n_sink d) e (r, ru))),
            d\<lparr>n_sink := Suc (n_sink d), log := log d @ [sink_call e (r, ru)]\<rparr>)"
  using assms
  by (cases "createReminderFromExtractedData E (n_sink d) (extractedFields r) (reminderTemplate ru) (eid e)")
     (auto simp: eligible_rule_def sink_answer_def sink_call_def called_def Let_def
        split: if_splits)

lemma process_results_accepted:
  assumes "eligible_rule rs r = Some ru" and "accepted (sink_answer E (n_sink d) e (r, ru))"
  shows "process_results E e rs (r # results) d =
           process_results E e rs results
             (d\<lparr>n_sink := Suc (n_sink d),
                log := log d @ [sink_call e (r, ru),
                                created_event e (r, ru) (sink_answer E (n_sink d) e (r, ru))],
                state := (state d)\<lparr>totalRemindersCreated :=
                           js_increment (totalRemindersCreated (state d))\<rparr>\<rparr>)"
proof -
  let ?c = "CreateReminder (extractedFields r) (reminderTemplate ru) (eid e)"
  let ?d1 = "called ?c (d\<lparr>n_sink := n_sink d + 1\<rparr>)"
  from assms(2) obtain res where
    res: "createReminderFromExtractedData E (n_sink d) (extractedFields r) (reminderTemplate ru) (eid e)
            = Inr res" "success res"
    by (cases "createReminderFromExtractedData E (n_sink d) (extractedFields r) (reminderTemplate ru) (eid e)")
       (auto simp: sink_answer_def)
  from assms(1) have ru: "\<not> confidence r < 25" "find (\<lambda>ru. name ru = ruleName r) rs = Some ru"
    by (auto simp: eligible_rule_def split: if_splits)
  have same: "emit (ReminderCreated (eid e) (reminderId res) (ruleName r) (confidence r))
          (?d1\<lparr>state := (state ?d1)\<lparr>totalRemindersCreated :=
                   js_increment (totalRemindersCreated (state ?d1))\<rparr>\<rparr>)
        = d\<lparr>n_sink := Suc (n_sink d),
             log := log d @ [sink_call e (r, ru),
                             created_event e (r, ru) (sink_answer E (n_sink d) e (r, ru))],
             state := (state d)\<lparr>totalRemindersCreated :=
                        js_increment (totalRemindersCreated (state d))\<rparr>\<rparr>"
    using res
    by (intro daemon.equality)
       (simp_all add: emit_def called_def sink_call_def created_event_def sink_answer_def)
  have "process_results E e rs (r # results) d =
        process_results E e rs results
          (emit (ReminderCreated (eid e) (reminderId res) (ruleName r) (confidence r))
             (?d1\<lparr>state := (state ?d1)\<lparr>totalRemindersCreated :=
                      js_increment (totalRemindersCreated (state ?d1))\<rparr>\<rparr>))"
    using ru res by (simp add: Let_def)
  then show ?thesis by (simp only: same)
qed

lemma process_results_expected:
  "process_results E e rs results d =
     (expected_outcome E (n_sink d) e (eligible rs results),
      d\<lparr>n_sink := n_sink d
             + length (filter is_sink_call (expected_log E (n_sink d) e (eligible rs results))),
         log := log d @ expected_log E (n_sink d) e (eligible rs results),
         state := (state d)\<lparr>totalRemindersCreated :=
           (js_increment ^^ length (filter is_created (expected_log E (n_sink d) e (eligible rs results))))
             (totalRemindersCreated (state d))\<rparr>\<rparr>)"
proof (induction results arbitrary: d)
  case Nil
  show ?case by (simp add: eligible_simps)
next
  case (Cons r results)
  show ?case
  proof (cases "eligible_rule rs r")
    case None
    with Cons.IH [of d] show ?thesis
      by (simp add: process_results_skip eligible_simps del: process_results.simps(2))
  next
    case (Some ru)
    show ?thesis
    proof (cases "accepted (sink_answer E (n_sink d) e (r, ru))")
      case False
      with Some show ?thesis
        by (simp add: process_results_refused eligible_simps sink_call_def
              del: process_results.simps(2))
    next
      case True
      let ?d2 = "d\<lparr>n_sink := Suc (n_sink d),
                log := log d @ [sink_call e (r, ru),
                                created_event e (r, ru) (sink_answer E (n_sink d) e (r, ru))],
                state := (state d)\<lparr>totalRemindersCreated :=
                           js_increment (totalRemindersCreated (state d))\<rparr>\<rparr>"
      have step: "process_results E e rs (r # results) d = process_results E e rs results ?d2"
        using Some True by (rule process_results_accepted)
      show ?thesis
        unfolding step Cons.IH [of ?d2]
        using Some True
        by (simp add: eligible_simps sink_call_def created_event_def funpow_swap1)
    qed
  qed
qed

lemma processQueueItem_rejected:
  "processMultipleEmails E (n_extract d) [email item] (rules item) = Inl t \<Longrightarrow>
   processQueueItem E item d =
     (Some t, d\<lparr>n_extract := Suc (n_extract d),
                 log := log d @ [ProcessMultipleEmails [email item] (rules item)]\<rparr>)"
  by (simp add: processQueueItem_def called_def Let_def)

lemma processQueueItem_expected:
  assumes "processMultipleEmails E (n_extract d) [email item] (rules item) = Inr results"
  shows "processQueueItem E item d =
     (expected_outcome E (n_sink d) (email item) (eligible (rules item) results),
      d\<lparr>n_extract := Suc (n_extract d),
         n_sink := n_sink d
             + length (filter is_sink_call
                 (expected_log E (n_sink d) (email item) (eligible (rules item) results))),
         log := log d @ ProcessMultipleEmails [email item] (rules item)
                  # expected_log E (n_sink d) (email item) (eligible (rules item) results),
         state := (state d)\<lparr>totalRemindersCreated :=
           (js_increment ^^ length (filter is_created
               (expected_log E (n_sink d) (email item) (eligible (rules item) results))))
             (totalRemindersCreated (state d))\<rparr>\<rparr>)"
  using assms
  by (simp add: processQueueItem_def Let_def process_results_expected called_def)

lemma entry_kinds [simp]:
  "is_sink_call (sink_call e p)"
  "\<not> is_sink_call (created_event e p a)"
  "is_created (created_event e p a)"
  "\<not> is_created (sink_call e p)"
  "\<not> is_failed (sink_call e p)"
  "\<not> is_failed (created_event e p a)"
  "\<not> is_cycle_event (sink_call e p)"
  "\<not> is_cycle_event (created_event e p a)"
  "\<not> is_extract_call (sink_call e p)"
  "\<not> is_extract_call (created_event e p a)"
  "mentions x (sink_call e p) = (eid e = x)"
  "mentions x (created_event e p a) = (eid e = x)"
  by (simp_all add: sink_call_def created_event_def)

lemma expected_log_kinds:
  "filter is_failed (expected_log E n e ps) = []"
  "filter is_cycle_event (expected_log E n e ps) = []"
  "filter is_extract_call (expected_log E n e ps) = []"
  "eid e \<noteq> x \<Longrightarrow> filter (mentions x) (expected_log E n e ps) = []"
  by (induction ps arbitrary: n) simp_all

lemma expected_all_accepted:
  "(\<forall>j<length ps. accepted (sink_answer E (n + j) e (ps ! j))) \<Longrightarrow>
   filter is_sink_call (expected_log E n e ps) = map (sink_call e) ps
   \<and> expected_outcome E n e ps = None
   \<and> length (filter is_created (expected_log E n e ps)) = length ps"
proof (induction ps arbitrary: n)
  case Nil
  show ?case by simp
next
  case (Cons p ps)
  from Cons.prems have first: "accepted (sink_answer E n e p)"
    by (auto dest: spec [where x = 0])
  have rest: "\<forall>j<length ps. accepted (sink_answer E (Suc n + j) e (ps ! j))"
  proof (intro allI impI)
    fix j assume "j < length ps"
    with Cons.prems have "accepted (sink_answer E (n + Suc j) e ((p # ps) ! Suc j))"
      by (auto dest: spec [where x = "Suc j"])
    then show "accepted (sink_answer E (Suc n + j) e (ps ! j))" by simp
  qed
  from Cons.IH [OF rest] first show ?case by simp
qed

lemma expected_first_refusal:
  assumes "i < length ps"
    and "\<forall>j<i. accepted (sink_answer E (n + j) e (ps ! j))"
    and "\<not> accepted (sink_answer E (n + i) e (ps ! i))"
  shows "filter is_sink_call (expected_log E n e ps) = map (sink_call e) (take (Suc i) ps)
   \<and> expected_outcome E n e ps = Some (refusal (sink_answer E (n + i) e (ps ! i)))
   \<and> length (filter is_created (expected_log E n e ps)) = i"
  using assms
proof (induction ps arbitrary: n i)
  case Nil
  then show ?case by simp
next
  case (Cons p ps)
  show ?case
  proof (cases i)
    case 0
    with Cons.prems show ?thesis by simp
  next
    case (Suc i')
    from Cons.prems(2) Suc have first: "accepted (sink_answer E n e p)"
      by (auto dest: spec [where x = 0])
    have i': "i' < length ps" using Cons.prems(1) Suc by simp
    have before: "\<forall>j<i'. accepted (sink_answer E (Suc n + j) e (ps ! j))"
    proof (intro allI impI)
      fix j assume "j < i'"
      with Cons.prems(2) Suc have "accepted (sink_answer E (n + Suc j) e ((p # ps) ! Suc j))"
        by (auto dest: spec [where x = "Suc j"])
      then show "accepted (sink_answer E (Suc n + j) e (ps ! j))" by simp
    qed
    have here: "\<not> accepted (sink_answer E (Suc n + i') e (ps ! i'))"
      using Cons.prems(3) Suc by simp
    from Cons.IH [OF i' before here] first Suc show ?thesis by simp
  qed
qed

lemma expected_outcome_None:
  "(expected_outcome E n e ps = None) =
     (\<forall>j<length ps. accepted (sink_answer E (n + j) e (ps ! j)))"
proof (induction ps arbitrary: n)
  case Nil
  show ?case by simp
next
  case (Cons p ps)
  have "(\<forall>j<length (p # ps). accepted (sink_answer E (n + j) e ((p # ps) ! j))) =
        (accepted (sink_answer E n e p)
         \<and> (\<forall>j<length ps. accepted (sink_answer E (Suc n + j) e (ps ! j))))"
    by (simp add: All_less_Suc2)
  with Cons.IH [of "Suc n"] show ?case by simp
qed

lemma expected_created_at:
  assumes "i < length ps"
    and "\<forall>j\<le>i. accepted (sink_answer E (n + j) e (ps ! j))"
  shows "2 * i + 1 < length (expected_log E n e ps)
   \<and> expected_log E n e ps ! (2 * i) = sink_call e (ps ! i)
   \<and> expected_log E n e ps ! (2 * i + 1)
       = created_event e (ps ! i) (sink_answer E (n + i) e (ps ! i))
   \<and> length (filter is_created (take (2 * i + 2) (expected_log E n e ps))) = i + 1"
  using assms
proof (induction ps arbitrary: n i)
  case Nil
  then show ?case by simp
next
  case (Cons p ps)
  from Cons.prems(2) have first: "accepted (sink_answer E n e p)"
    by (auto dest: spec [where x = 0])
  show ?case
  proof (cases i)
    case 0
    with first show ?thesis by simp
  next
    case (Suc i')
    have i': "i' < length ps" using Cons.prems(1) Suc by simp
    have upto: "\<forall>j\<le>i'. accepted (sink_answer E (Suc n + j) e (ps ! j))"
    proof (intro allI impI)
      fix j assume "j \<le> i'"
      with Cons.prems(2) Suc have "accepted (sink_answer E (n + Suc j) e ((p # ps) ! Suc j))"
        by (auto dest: spec [where x = "Suc j"])
      then show "accepted (sink_answer E (Suc n + j) e (ps ! j))" by simp
    qed
    from Cons.IH [OF i' upto] first Suc show ?thesis by simp
  qed
qed

lemma eligible_results:
  "map fst (eligible rs results) =
     filter (\<lambda>r. 25 \<le> confidence r \<and> find (\<lambda>ru. name ru = ruleName r) rs \<noteq> None) results"
proof (induction results)
  case Nil
  show ?case by (simp add: eligible_simps)
next
  case (Cons r results)
  then show ?case
    by (cases "eligible_rule rs r")
       (auto simp: eligible_simps eligible_rule_def split: if_splits)
qed

lemma eligible_rules:
  "\<forall>p\<in>set (eligible rs results).
     25 \<le> confidence (fst p) \<and> find (\<lambda>ru. name ru = ruleName (fst p)) rs = Some (snd p)"
proof (induction results)
  case Nil
  show ?case by (simp add: eligible_simps)
next
  case (Cons r results)
  then show ?case
    by (cases "eligible_rule rs r")
       (auto simp: eligible_simps eligible_rule_def split: if_splits)
qed

lemma process_results_low_confidence:
  "process_results E e rs results d =
   process_results E e rs (filter (\<lambda>r. \<not> confidence r < 25) results) d"
  by (induction results arbitrary: d)
     (auto simp: Let_def split: option.splits sum.splits)

subsection \<open>The confidence gate\<close>

lemma processQueueItem_sink_calls:
  assumes "processMultipleEmails E (n_extract d) [email item] (rules item) = Inr results"
  shows "filter is_sink_call (log (snd (processQueueItem E item d))) =
           filter is_sink_call (log d)
             @ filter is_sink_call
                 (expected_log E (n_sink d) (email item) (eligible (rules item) results))"
    and "fst (processQueueItem E item d) =
           expected_outcome E (n_sink d) (email item) (eligible (rules item) results)"
  by (simp_all add: processQueueItem_expected [OF assms])

text \<open>
  C4, as amended: when a queue item is processed, an extraction result with confidence
  below 25 has no effect at all (the sink is not called for it and nothing is thrown, so
  no retry and no error come from it); the eligible results are those with confidence at
  least 25 whose rule name is the name of a rule in the item's list, in the extractor's
  order. The sink is called for the eligible results in that order, each as long as
  every earlier sink call of the same attempt succeeded: when all succeed, the calls are
  those of all eligible results and the item completes; when the call for the eligible
  result number \<open>i\<close> is the first that fails, the calls are those of the eligible
  results up to number \<open>i\<close> and no more, and the attempt throws what that call failed
  with. So the eligible results after a failed call get no call in that attempt.
\<close>

theorem C4_confidence_gate:
  assumes "processMultipleEmails E (n_extract d) [email item] (rules item) = Inr results"
  shows "processQueueItem E item d =
           process_results E (email item) (rules item)
             (filter (\<lambda>r. \<not> confidence r < 25) results)
             (called (ProcessMultipleEmails [email item] (rules item))
                (d\<lparr>n_extract := n_extract d + 1\<rparr>))
    \<and> map fst (eligible (rules item) results) =
        filter (\<lambda>r. 25 \<le> confidence r
                     \<and> find (\<lambda>ru. name ru = ruleName r) (rules item) \<noteq> None) results
    \<and> (\<forall>p\<in>set (eligible (rules item) results).
          find (\<lambda>ru. name ru = ruleName (fst p)) (rules item) = Some (snd p))
    \<and> ((\<forall>j<length (eligible (rules item) results).
           accepted (sink_answer E (n_sink d + j) (email item)
                       (eligible (rules item) results ! j))) \<longrightarrow>
          filter is_sink_call (log (snd (processQueueItem E item d))) =
            filter is_sink_call (log d)
              @ map (sink_call (email item)) (eligible (rules item) results)
          \<and> fst (processQueueItem E item d) = None)
    \<and> (\<forall>i<length (eligible (rules item) results).
          (\<forall>j<i. accepted (sink_answer E (n_sink d + j) (email item)
                              (eligible (rules item) results ! j)))
          \<and> \<not> accepted (sink_answer E (n_sink d + i) (email item)
                             (eligible (rules item) results ! i)) \<longrightarrow>
          filter is_sink_call (log (snd (processQueueItem E item d))) =
            filter is_sink_call (log d)
              @ map (sink_call (email item)) (take (Suc i) (eligible (rules item) results))
          \<and> fst (processQueueItem E item d) =
              Some (refusal (sink_answer E (n_sink d + i) (email item)
                               (eligible (rules item) results ! i))))
    \<and> ((fst (processQueueItem E item d) = None) =
          (\<forall>j<length (eligible (rules item) results).
             accepted (sink_answer E (n_sink d + j) (email item)
                         (eligible (rules item) results ! j))))"
proof -
  let ?e = "email item"
  let ?ps = "eligible (rules item) results"
  note calls = processQueueItem_sink_calls [OF assms]
  have low: "processQueueItem E item d =
           process_results E ?e (rules item)
             (filter (\<lambda>r. \<not> confidence r < 25) results)
             (called (ProcessMultipleEmails [?e] (rules item))
                (d\<lparr>n_extract := n_extract d + 1\<rparr>))"
    using assms process_results_low_confidence by (simp add: processQueueItem_def Let_def)
  have which: "map fst ?ps =
        filter (\<lambda>r. 25 \<le> confidence r
                     \<and> find (\<lambda>ru. name ru = ruleName r) (rules item) \<noteq> None) results"
    by (rule eligible_results)
  have rule: "\<forall>p\<in>set ?ps. find (\<lambda>ru. name ru = ruleName (fst p)) (rules item) = Some (snd p)"
    using eligible_rules [of "rules item" results] by blast
  have all: "(\<forall>j<length ?ps. accepted (sink_answer E (n_sink d + j) ?e (?ps ! j))) \<longrightarrow>
          filter is_sink_call (log (snd (processQueueItem E item d))) =
            filter is_sink_call (log d) @ map (sink_call ?e) ?ps
          \<and> fst (processQueueItem E item d) = None"
    using expected_all_accepted [where E = E and n = "n_sink d" and e = ?e and ps = ?ps]
    by (simp add: calls)
  have upto: "\<forall>i<length ?ps.
          (\<forall>j<i. accepted (sink_answer E (n_sink d + j) ?e (?ps ! j)))
          \<and> \<not> accepted (sink_answer E (n_sink d + i) ?e (?ps ! i)) \<longrightarrow>
          filter is_sink_call (log (snd (processQueueItem E item d))) =
            filter is_sink_call (log d) @ map (sink_call ?e) (take (Suc i) ?ps)
          \<and> fst (processQueueItem E item d) =
              Some (refusal (sink_answer E (n_sink d + i) ?e (?ps ! i)))"
  proof (intro allI impI)
    fix i
    assume i: "i < length ?ps"
      and h: "(\<forall>j<i. accepted (sink_answer E (n_sink d + j) ?e (?ps ! j)))
              \<and> \<not> accepted (sink_answer E (n_sink d + i) ?e (?ps ! i))"
    from h have before: "\<forall>j<i. accepted (sink_answer E (n_sink d + j) ?e (?ps ! j))"
      and here: "\<not> accepted (sink_answer E (n_sink d + i) ?e (?ps ! i))"
      by blast+
    from expected_first_refusal [OF i before here]
    show "filter is_sink_call (log (snd (processQueueItem E item d))) =
            filter is_sink_call (log d) @ map (sink_call ?e) (take (Suc i) ?ps)
          \<and> fst (processQueueItem E item d) =
              Some (refusal (sink_answer E (n_sink d + i) ?e (?ps ! i)))"
      by (simp add: calls)
  qed
  have iff: "(fst (processQueueItem E item d) = None) =
          (\<forall>j<length ?ps. accepted (sink_answer E (n_sink d + j) ?e (?ps ! j)))"
    by (simp only: calls expected_outcome_None)
  from low which rule all upto iff show ?thesis by blast
qed

theorem C4_confidence_gate_witness:
  "eligible [ex_rule] [ex_result_20, ex_result_25] = [(ex_result_25, ex_rule)]
   \<and> filter is_sink_call (log (snd (processQueueItem ex_env_gate ex_item ex_daemon))) =
       [CreateReminder [(''tipo'', ''b'')] (reminderTemplate ex_rule) ''m1'']
   \<and> fst (processQueueItem ex_env_gate ex_item ex_daemon) = None
   \<and> eligible [ex_rule] [ex_result, ex_result_25] = [(ex_result, ex_rule), (ex_result_25, ex_rule)]
   \<and> filter is_sink_call (log (snd (processQueueItem ex_env_down ex_item ex_daemon))) =
       [CreateReminder (extractedFields ex_result) (reminderTemplate ex_rule) ''m1'']
   \<and> fst (processQueueItem ex_env_down ex_item ex_daemon) = Some (JsError ''sink down'')"
proof -
  have h: "processMultipleEmails ex_env_gate (n_extract ex_daemon) [email ex_item] (rules ex_item)
             = Inr [ex_result_20, ex_result_25]"
    "processMultipleEmails ex_env_down (n_extract ex_daemon) [email ex_item] (rules ex_item)
             = Inr [ex_result, ex_result_25]"
    by (simp_all add: ex_defs)
  have l: "filter is_sink_call (log ex_daemon) = []" "rules ex_item = [ex_rule]"
    "email ex_item = ex_email" "n_sink ex_daemon = 0"
    by (simp_all add: model_defs ex_defs)
  have e1: "eligible [ex_rule] [ex_result_20, ex_result_25] = [(ex_result_25, ex_rule)]"
    by (simp add: eligible_def eligible_rule_def map_filter_simps ex_defs)
  have e2: "eligible [ex_rule] [ex_result, ex_result_25]
              = [(ex_result, ex_rule), (ex_result_25, ex_rule)]"
    by (simp add: eligible_def eligible_rule_def map_filter_simps ex_defs)
  have a1: "\<forall>j<length [(ex_result_25, ex_rule)].
              accepted (sink_answer ex_env_gate (0 + j) ex_email ([(ex_result_25, ex_rule)] ! j))"
    by (simp add: sink_answer_def ex_defs)
  have a2: "\<not> accepted (sink_answer ex_env_down (0 + 0) ex_email
                           ([(ex_result, ex_rule), (ex_result_25, ex_rule)] ! 0))"
    "refusal (sink_answer ex_env_down (0 + 0) ex_email
                ([(ex_result, ex_rule), (ex_result_25, ex_rule)] ! 0)) = JsError ''sink down''"
    by (simp_all add: sink_answer_def ex_defs)
  from C4_confidence_gate [OF h(1)]
  have "(\<forall>j<length [(ex_result_25, ex_rule)].
           accepted (sink_answer ex_env_gate (0 + j) ex_email ([(ex_result_25, ex_rule)] ! j))) \<longrightarrow>
          filter is_sink_call (log (snd (processQueueItem ex_env_gate ex_item ex_daemon))) =
            [] @ map (sink_call ex_email) [(ex_result_25, ex_rule)]
          \<and> fst (processQueueItem ex_env_gate ex_item ex_daemon) = None"
    unfolding l e1 by blast
  with a1
  have g: "filter is_sink_call (log (snd (processQueueItem ex_env_gate ex_item ex_daemon))) =
            map (sink_call ex_email) [(ex_result_25, ex_rule)]
          \<and> fst (processQueueItem ex_env_gate ex_item ex_daemon) = None"
    by simp
  from C4_confidence_gate [OF h(2)]
  have "\<forall>i<length [(ex_result, ex_rule), (ex_result_25, ex_rule)].
          (\<forall>j<i. accepted (sink_answer ex_env_down (0 + j) ex_email
                              ([(ex_result, ex_rule), (ex_result_25, ex_rule)] ! j)))
          \<and> \<not> accepted (sink_answer ex_env_down (0 + i) ex_email
                             ([(ex_result, ex_rule), (ex_result_25, ex_rule)] ! i)) \<longrightarrow>
          filter is_sink_call (log (snd (processQueueItem ex_env_down ex_item ex_daemon))) =
            [] @ map (sink_call ex_email) (take (Suc i) [(ex_result, ex_rule), (ex_result_25, ex_rule)])
          \<and> fst (processQueueItem ex_env_down ex_item ex_daemon) =
              Some (refusal (sink_answer ex_env_down (0 + i) ex_email
                               ([(ex_result, ex_rule), (ex_result_25, ex_rule)] ! i)))"
    unfolding l e2 by blast
  from this [rule_format, of 0] a2
  have dn: "filter is_sink_call (log (snd (processQueueItem ex_env_down ex_item ex_daemon))) =
            map (sink_call ex_email) (take (Suc 0) [(ex_result, ex_rule), (ex_result_25, ex_rule)])
          \<and> fst (processQueueItem ex_env_down ex_item ex_daemon) = Some (JsError ''sink down'')"
    by simp
  from g dn e1 e2 show ?thesis
    by (simp add: sink_call_def ex_defs)
qed

text \<open>
  C4 as stated fails. The extractor returns two results, at 85 and at 25, both for a
  rule of the item; the sink refuses the first call, which ends the attempt, and the
  sink is not called for the result at 25.
\<close>

theorem C4_counterexample_later_result_not_called:
  "processMultipleEmails ex_env_down (n_extract ex_daemon) [email ex_item] (rules ex_item)
     = Inr [ex_result, ex_result_25]
   \<and> confidence ex_result_25 = 25
   \<and> find (\<lambda>ru. name ru = ruleName ex_result_25) (rules ex_item) = Some ex_rule
   \<and> log (snd (processQueueItem ex_env_down ex_item ex_daemon)) =
       [ProcessMultipleEmails [ex_email] [ex_rule],
        CreateReminder (extractedFields ex_result) (reminderTemplate ex_rule) ''m1'']
   \<and> fst (processQueueItem ex_env_down ex_item ex_daemon) = Some (JsError ''sink down'')"
  by (simp add: model_defs ex_defs)

subsection \<open>Bookkeeping\<close>

lemma js_increment_exact: "n < 9007199254740992 \<Longrightarrow> js_increment n = n + 1"
  by (simp add: js_increment_def)

lemma js_increment_stuck: "js_increment 9007199254740992 = 9007199254740992"
  by (simp add: js_increment_def)

lemma drain_item_completed:
  assumes "fst (processQueueItem E item d) = None"
  shows "processedEmailIds (state (drain_item E item d)) =
           set_add (processedEmailIds (state d)) (eid (email item))"
    and "totalEmailsProcessed (state (drain_item E item d)) =
           js_increment (totalEmailsProcessed (state d))"
    and "processingQueue (drain_item E item d) = processingQueue d"
    and "log (drain_item E item d) = log (snd (processQueueItem E item d))"
    and "totalRemindersCreated (state (drain_item E item d)) =
           totalRemindersCreated (state (snd (processQueueItem E item d)))"
  using assms by (simp_all add: drain_item_alt mark_processed_def processQueueItem_fields)

lemma drain_item_threw:
  assumes "fst (processQueueItem E item d) = Some t"
  shows "processedEmailIds (state (drain_item E item d)) = processedEmailIds (state d)"
    and "totalEmailsProcessed (state (drain_item E item d)) = totalEmailsProcessed (state d)"
    and "totalRemindersCreated (state (drain_item E item d)) =
           totalRemindersCreated (state (snd (processQueueItem E item d)))"
  using assms
  by (simp_all add: drain_item_alt record_failure_def read_clock_def emit_def Let_def
        processQueueItem_fields)

lemma drain_item_reminders:
  "totalRemindersCreated (state (drain_item E item d)) =
     totalRemindersCreated (state (snd (processQueueItem E item d)))"
  by (cases "fst (processQueueItem E item d)")
     (simp_all add: drain_item_completed drain_item_threw)

lemma drain_item_single_success:
  assumes "processMultipleEmails E (n_extract d) [email item] (rules item) = Inr [r]"
    and "25 \<le> confidence r"
    and "find (\<lambda>ru. name ru = ruleName r) (rules item) = Some ru"
    and "createReminderFromExtractedData E (n_sink d) (extractedFields r) (reminderTemplate ru)
           (eid (email item)) = Inr res"
    and "success res"
  shows "log (drain_item E item d) =
           log d @ [ProcessMultipleEmails [email item] (rules item),
                    CreateReminder (extractedFields r) (reminderTemplate ru) (eid (email item)),
                    Emit (ReminderCreated (eid (email item)) (reminderId res) (ruleName r) (confidence r))]"
    and "processedEmailIds (state (drain_item E item d)) =
           set_add (processedEmailIds (state d)) (eid (email item))"
    and "totalEmailsProcessed (state (drain_item E item d)) =
           js_increment (totalEmailsProcessed (state d))"
    and "totalRemindersCreated (state (drain_item E item d)) =
           js_increment (totalRemindersCreated (state d))"
  using assms
  by (simp_all add: drain_item_def processQueueItem_def mark_processed_def called_def emit_def Let_def)

text \<open>
  C6, as amended. In an attempt on a queue item, every sink call that succeeds
  increments \<open>totalRemindersCreated\<close> and is followed at once by a \<open>reminderCreated\<close>
  event with the email id, the reminder id the sink returned, the rule name and the
  confidence of its extraction result, whether or not the item completes: the log of
  the attempt is the extraction call and then, for the eligible results in order, the
  sink call and, when it succeeds, this event, up to the first call that fails; the
  counter is incremented once for each of these events. The message id is added to
  \<open>processedEmailIds\<close> and \<open>totalEmailsProcessed\<close> is incremented when the processing
  of the whole item completes without throwing, which is when every sink call made for
  it succeeds; when it throws, neither happens. An increment adds 1 to a counter below
  \<open>2^53\<close> and leaves a counter at \<open>2^53\<close> as it is. For an item with one extraction
  result that is eligible and whose sink call succeeds, the drain makes the extraction
  call and the sink call, emits one \<open>reminderCreated\<close>, adds the id and increments
  both counters.
\<close>

theorem C6_success_bookkeeping:
  assumes "processMultipleEmails E (n_extract d) [email item] (rules item) = Inr results"
  shows "log (snd (processQueueItem E item d)) =
           log d @ ProcessMultipleEmails [email item] (rules item)
             # expected_log E (n_sink d) (email item) (eligible (rules item) results)
   \<and> totalRemindersCreated (state (drain_item E item d)) =
       (js_increment ^^ length (filter is_created
           (expected_log E (n_sink d) (email item) (eligible (rules item) results))))
         (totalRemindersCreated (state d))
   \<and> (\<forall>i<length (eligible (rules item) results).
         (\<forall>j\<le>i. accepted (sink_answer E (n_sink d + j) (email item)
                             (eligible (rules item) results ! j))) \<longrightarrow>
         2 * i + 1 < length (expected_log E (n_sink d) (email item) (eligible (rules item) results))
         \<and> expected_log E (n_sink d) (email item) (eligible (rules item) results) ! (2 * i)
             = sink_call (email item) (eligible (rules item) results ! i)
         \<and> expected_log E (n_sink d) (email item) (eligible (rules item) results) ! (2 * i + 1)
             = created_event (email item) (eligible (rules item) results ! i)
                 (sink_answer E (n_sink d + i) (email item) (eligible (rules item) results ! i))
         \<and> length (filter is_created (take (2 * i + 2)
               (expected_log E (n_sink d) (email item) (eligible (rules item) results)))) = i + 1)
   \<and> (fst (processQueueItem E item d) = None \<longrightarrow>
        processedEmailIds (state (drain_item E item d)) =
          set_add (processedEmailIds (state d)) (eid (email item))
        \<and> totalEmailsProcessed (state (drain_item E item d)) =
            js_increment (totalEmailsProcessed (state d)))
   \<and> (fst (processQueueItem E item d) \<noteq> None \<longrightarrow>
        processedEmailIds (state (drain_item E item d)) = processedEmailIds (state d)
        \<and> totalEmailsProcessed (state (drain_item E item d)) = totalEmailsProcessed (state d))
   \<and> (\<forall>n<9007199254740992. js_increment n = n + 1)
   \<and> js_increment 9007199254740992 = 9007199254740992
   \<and> (results = [r]
      \<and> 25 \<le> confidence r
      \<and> find (\<lambda>ru. name ru = ruleName r) (rules item) = Some ru
      \<and> createReminderFromExtractedData E (n_sink d) (extractedFields r) (reminderTemplate ru)
           (eid (email item)) = Inr res
      \<and> success res \<longrightarrow>
      log (drain_item E item d) =
        log d @ [ProcessMultipleEmails [email item] (rules item),
                 CreateReminder (extractedFields r) (reminderTemplate ru) (eid (email item)),
                 Emit (ReminderCreated (eid (email item)) (reminderId res) (ruleName r)
                         (confidence r))]
      \<and> processedEmailIds (state (drain_item E item d)) =
          set_add (processedEmailIds (state d)) (eid (email item))
      \<and> totalEmailsProcessed (state (drain_item E item d)) =
          js_increment (totalEmailsProcessed (state d))
      \<and> totalRemindersCreated (state (drain_item E item d)) =
          js_increment (totalRemindersCreated (state d)))"
proof -
  let ?e = "email item"
  let ?ps = "eligible (rules item) results"
  let ?L = "expected_log E (n_sink d) ?e ?ps"
  note nf = processQueueItem_expected [OF assms]
  have lg: "log (snd (processQueueItem E item d)) =
           log d @ ProcessMultipleEmails [?e] (rules item) # ?L"
    by (simp add: nf)
  have cnt: "totalRemindersCreated (state (drain_item E item d)) =
       (js_increment ^^ length (filter is_created ?L)) (totalRemindersCreated (state d))"
    by (simp add: drain_item_reminders nf)
  have each: "\<forall>i<length ?ps.
         (\<forall>j\<le>i. accepted (sink_answer E (n_sink d + j) ?e (?ps ! j))) \<longrightarrow>
         2 * i + 1 < length ?L
         \<and> ?L ! (2 * i) = sink_call ?e (?ps ! i)
         \<and> ?L ! (2 * i + 1) = created_event ?e (?ps ! i) (sink_answer E (n_sink d + i) ?e (?ps ! i))
         \<and> length (filter is_created (take (2 * i + 2) ?L)) = i + 1"
  proof (intro allI impI)
    fix i
    assume i: "i < length ?ps"
      and upto: "\<forall>j\<le>i. accepted (sink_answer E (n_sink d + j) ?e (?ps ! j))"
    from expected_created_at [OF i upto]
    show "2 * i + 1 < length ?L
         \<and> ?L ! (2 * i) = sink_call ?e (?ps ! i)
         \<and> ?L ! (2 * i + 1) = created_event ?e (?ps ! i) (sink_answer E (n_sink d + i) ?e (?ps ! i))
         \<and> length (filter is_created (take (2 * i + 2) ?L)) = i + 1" .
  qed
  have done_ok: "fst (processQueueItem E item d) = None \<longrightarrow>
        processedEmailIds (state (drain_item E item d)) =
          set_add (processedEmailIds (state d)) (eid ?e)
        \<and> totalEmailsProcessed (state (drain_item E item d)) =
            js_increment (totalEmailsProcessed (state d))"
    using drain_item_completed(1,2) [of E item d] by simp
  have threw: "fst (processQueueItem E item d) \<noteq> None \<longrightarrow>
        processedEmailIds (state (drain_item E item d)) = processedEmailIds (state d)
        \<and> totalEmailsProcessed (state (drain_item E item d)) = totalEmailsProcessed (state d)"
    using drain_item_threw(1,2) [of E item d] by auto
  have incr: "\<forall>n<9007199254740992. js_increment n = n + 1"
    "js_increment 9007199254740992 = 9007199254740992"
    by (simp_all add: js_increment_def)
  have one: "results = [r]
      \<and> 25 \<le> confidence r
      \<and> find (\<lambda>ru. name ru = ruleName r) (rules item) = Some ru
      \<and> createReminderFromExtractedData E (n_sink d) (extractedFields r) (reminderTemplate ru)
           (eid ?e) = Inr res
      \<and> success res \<longrightarrow>
      log (drain_item E item d) =
        log d @ [ProcessMultipleEmails [?e] (rules item),
                 CreateReminder (extractedFields r) (reminderTemplate ru) (eid ?e),
                 Emit (ReminderCreated (eid ?e) (reminderId res) (ruleName r) (confidence r))]
      \<and> processedEmailIds (state (drain_item E item d)) =
          set_add (processedEmailIds (state d)) (eid ?e)
      \<and> totalEmailsProcessed (state (drain_item E item d)) =
          js_increment (totalEmailsProcessed (state d))
      \<and> totalRemindersCreated (state (drain_item E item d)) =
          js_increment (totalRemindersCreated (state d))"
    using drain_item_single_success [of E d item r ru res] assms by simp
  from lg cnt each done_ok threw incr one show ?thesis by blast
qed

theorem C6_success_bookkeeping_witness:
  "log (drain_item ex_env ex_item ex_daemon) =
     [ProcessMultipleEmails [ex_email] [ex_rule],
      CreateReminder [(''monto'', ''1000''), (''vencimiento'', ''2025-03-01'')]
        (reminderTemplate ex_rule) ''m1'',
      Emit (ReminderCreated ''m1'' (Some ''R1'') ''r1'' 85)]
   \<and> processedEmailIds (state (drain_item ex_env ex_item ex_daemon)) = [''m1'']
   \<and> totalEmailsProcessed (state (drain_item ex_env ex_item ex_daemon)) = 1
   \<and> totalRemindersCreated (state (drain_item ex_env ex_item ex_daemon)) = 1"
proof -
  have h: "processMultipleEmails ex_env (n_extract ex_daemon) [email ex_item] (rules ex_item)
             = Inr [ex_result]"
    by (simp add: ex_defs)
  have s: "25 \<le> confidence ex_result"
    "find (\<lambda>ru. name ru = ruleName ex_result) (rules ex_item) = Some ex_rule"
    "createReminderFromExtractedData ex_env (n_sink ex_daemon) (extractedFields ex_result)
       (reminderTemplate ex_rule) (eid (email ex_item)) = Inr ex_created"
    "success ex_created"
    by (simp_all add: ex_defs)
  have v: "log ex_daemon = []" "processedEmailIds (state ex_daemon) = []"
    "totalEmailsProcessed (state ex_daemon) = 0" "totalRemindersCreated (state ex_daemon) = 0"
    "email ex_item = ex_email" "rules ex_item = [ex_rule]" "eid ex_email = ''m1''"
    "extractedFields ex_result = [(''monto'', ''1000''), (''vencimiento'', ''2025-03-01'')]"
    "reminderId ex_created = Some ''R1''" "ruleName ex_result = ''r1''" "confidence ex_result = 85"
    by (simp_all add: model_defs ex_defs)
  from C6_success_bookkeeping [OF h, where r = ex_result and ru = ex_rule and res = ex_created]
  have "[ex_result] = [ex_result]
      \<and> 25 \<le> confidence ex_result
      \<and> find (\<lambda>ru. name ru = ruleName ex_result) (rules ex_item) = Some ex_rule
      \<and> createReminderFromExtractedData ex_env (n_sink ex_daemon) (extractedFields ex_result)
           (reminderTemplate ex_rule) (eid (email ex_item)) = Inr ex_created
      \<and> success ex_created \<longrightarrow>
      log (drain_item ex_env ex_item ex_daemon) =
        log ex_daemon @ [ProcessMultipleEmails [email ex_item] (rules ex_item),
                 CreateReminder (extractedFields ex_result) (reminderTemplate ex_rule)
                   (eid (email ex_item)),
                 Emit (ReminderCreated (eid (email ex_item)) (reminderId ex_created)
                         (ruleName ex_result) (confidence ex_result))]
      \<and> processedEmailIds (state (drain_item ex_env ex_item ex_daemon)) =
          set_add (processedEmailIds (state ex_daemon)) (eid (email ex_item))
      \<and> totalEmailsProcessed (state (drain_item ex_env ex_item ex_daemon)) =
          js_increment (totalEmailsProcessed (state ex_daemon))
      \<and> totalRemindersCreated (state (drain_item ex_env ex_item ex_daemon)) =
          js_increment (totalRemindersCreated (state ex_daemon))"
    by blast
  with s show ?thesis by (simp add: v set_add_def js_increment_def)
qed

text \<open>
  C6 as stated fails. The extractor returns two eligible results; the sink creates the
  reminder for the first and refuses the second. A sink call has succeeded:
  \<open>reminderCreated\<close> is emitted and \<open>totalRemindersCreated\<close> is 1; but the item throws,
  so the id is not added to \<open>processedEmailIds\<close> and \<open>totalEmailsProcessed\<close> stays 0.
\<close>

theorem C6_counterexample_created_but_not_processed:
  "log (drain_item ex_env_second_refused ex_item ex_daemon) =
     [ProcessMultipleEmails [ex_email] [ex_rule],
      CreateReminder (extractedFields ex_result) (reminderTemplate ex_rule) ''m1'',
      Emit (ReminderCreated ''m1'' (Some ''R1'') ''r1'' 85),
      CreateReminder (extractedFields ex_result_25) (reminderTemplate ex_rule) ''m1'']
   \<and> totalRemindersCreated (state (drain_item ex_env_second_refused ex_item ex_daemon)) = 1
   \<and> processedEmailIds (state (drain_item ex_env_second_refused ex_item ex_daemon)) = []
   \<and> totalEmailsProcessed (state (drain_item ex_env_second_refused ex_item ex_daemon)) = 0
   \<and> map attempts (processingQueue (drain_item ex_env_second_refused ex_item ex_daemon)) = [1]"
  by (simp add: model_defs ex_defs)

subsection \<open>Items that create no reminder\<close>

lemma process_results_none_eligible:
  "\<forall>r\<in>set results. eligible_rule rs r = None \<Longrightarrow>
   process_results E e rs results d = (None, d)"
  by (induction results arbitrary: d) (simp_all add: process_results_skip del: process_results.simps(2))

lemma drain_item_no_reminder:
  assumes "processMultipleEmails E (n_extract d) [email item] (rules item) = Inr results"
    and "\<forall>r\<in>set results. confidence r < 25 \<or> find (\<lambda>ru. name ru = ruleName r) (rules item) = None"
  shows "drain_item E item d =
           mark_processed item
             (called (ProcessMultipleEmails [email item] (rules item))
                (d\<lparr>n_extract := n_extract d + 1\<rparr>))"
proof -
  have "\<forall>r\<in>set results. eligible_rule (rules item) r = None"
    using assms(2) by (auto simp: eligible_rule_def)
  then show ?thesis
    using assms(1)
    by (simp add: drain_item_def processQueueItem_def Let_def process_results_none_eligible)
qed

text \<open>
  What the code does guarantee: a queue item whose processing completes without
  throwing is marked processed and counted even when no reminder was created. For every
  queue item all of whose extraction results have confidence below 25 or name no rule of
  the item's list, the drain calls the extractor and nothing else, adds the message id to
  \<open>processedEmailIds\<close>, increments \<open>totalEmailsProcessed\<close> and leaves
  \<open>totalRemindersCreated\<close> unchanged. The id then stays in \<open>processedEmailIds\<close> and
  every later cycle drops the message at the fetch filter, whatever rules that cycle
  loads; when no other item for the message is waiting in the queue, no later cycle
  calls the extractor or the sink for it.
\<close>

lemma no_reminder_still_processed:
  assumes "processMultipleEmails E (n_extract d) [email item] (rules item) = Inr results"
    and "\<forall>r\<in>set results. confidence r < 25 \<or> find (\<lambda>ru. name ru = ruleName r) (rules item) = None"
  shows "processedEmailIds (state (drain_item E item d)) =
           set_add (processedEmailIds (state d)) (eid (email item))
    \<and> totalEmailsProcessed (state (drain_item E item d)) =
        js_increment (totalEmailsProcessed (state d))
    \<and> totalRemindersCreated (state (drain_item E item d)) = totalRemindersCreated (state d)
    \<and> log (drain_item E item d) = log d @ [ProcessMultipleEmails [email item] (rules item)]
    \<and> eid (email item) \<in>
        set (processedEmailIds (state ((processEmailsOnce E' ^^ n) (drain_item E item d))))
    \<and> eid (email item) \<notin>
        set (map eid (fst (fetchNewEmails E' ((processEmailsOnce E' ^^ n) (drain_item E item d)))))
    \<and> (\<not> pending (eid (email item)) (drain_item E item d) \<longrightarrow>
         \<not> pending (eid (email item)) ((processEmailsOnce E' ^^ n) (drain_item E item d))
         \<and> filter (mentions (eid (email item)))
             (log ((processEmailsOnce E' ^^ n) (drain_item E item d)))
           = filter (mentions (eid (email item))) (log (drain_item E item d)))"
proof -
  let ?x = "eid (email item)"
  let ?d' = "drain_item E item d"
  have eq: "?d' = mark_processed item
             (called (ProcessMultipleEmails [email item] (rules item))
                (d\<lparr>n_extract := n_extract d + 1\<rparr>))"
    using assms by (rule drain_item_no_reminder)
  have now_in: "?x \<in> set (processedEmailIds (state ?d'))"
    by (simp add: eq mark_processed_def called_def set_add_def)
  have later_in: "?x \<in> set (processedEmailIds (state ((processEmailsOnce E' ^^ n) ?d')))"
    using cycles_ids [where d = ?d' and E = E' and n = n] now_in by auto
  have dropped: "?x \<notin> set (map eid (fst (fetchNewEmails E' ((processEmailsOnce E' ^^ n) ?d'))))"
    using fetchNewEmails_new [where E = E' and d = "(processEmailsOnce E' ^^ n) ?d'"] later_in
    by (auto simp: is_new_def set_has_def)
  have settled: "\<not> pending ?x ?d' \<longrightarrow>
         \<not> pending ?x ((processEmailsOnce E' ^^ n) ?d')
         \<and> filter (mentions ?x) (log ((processEmailsOnce E' ^^ n) ?d'))
           = filter (mentions ?x) (log ?d')"
    using cycles_settled [OF now_in, where E = E' and n = n] by simp
  have here: "processedEmailIds (state ?d') = set_add (processedEmailIds (state d)) ?x"
    "totalEmailsProcessed (state ?d') = js_increment (totalEmailsProcessed (state d))"
    "totalRemindersCreated (state ?d') = totalRemindersCreated (state d)"
    "log ?d' = log d @ [ProcessMultipleEmails [email item] (rules item)]"
    by (simp_all add: eq mark_processed_def called_def)
  from here later_in dropped settled show ?thesis by simp
qed

text \<open>
  C10: an item that completes without a reminder is marked processed and counted, and
  its message is then never reprocessed. The first part holds
  (\<open>no_reminder_still_processed\<close>); the second fails on this input. Cycle 1 fetches
  the late message \<open>m2\<close> and the extractor rejects, so \<open>m2\<close> waits in the queue. Cycle
  2 fetches \<open>m2\<close> again and queues a second item, since the enqueue step does not look
  into the queue; for the first the extractor returns a result at 20, so \<open>m2\<close> is
  marked processed without a reminder, and for the second it rejects, so that item
  waits. Cycle 3 processes \<open>m2\<close> again: the extractor is called for it and a reminder
  is created.
\<close>

theorem C10_reprocessed_after_low_confidence:
  "processedEmailIds (state ex_low_2) = [''m2'']
   \<and> totalEmailsProcessed (state ex_low_2) = 1
   \<and> totalRemindersCreated (state ex_low_2) = 0
   \<and> map (\<lambda>q. (eid (email q), attempts q)) (processingQueue ex_low_2) = [(''m2'', 1)]
   \<and> ex_low_3 = processEmailsOnce ex_env_late_low ex_low_2
   \<and> filter (mentions ''m2'') (drop (length (log ex_low_2)) (log ex_low_3)) =
       [ProcessMultipleEmails [ex_late_email\<lparr>matchedRules := [''r1'']\<rparr>] [ex_rule],
        CreateReminder (extractedFields ex_result) (reminderTemplate ex_rule) ''m2'',
        Emit (ReminderCreated ''m2'' (Some ''R1'') ''r1'' 85)]
   \<and> filter (\<lambda>c. is_extract_call c \<and> mentions ''m2'' c) (log ex_low_3) =
       [ProcessMultipleEmails [ex_late_email\<lparr>matchedRules := [''r1'']\<rparr>] [ex_rule],
        ProcessMultipleEmails [ex_late_email\<lparr>matchedRules := [''r1'']\<rparr>] [ex_rule],
        ProcessMultipleEmails [ex_late_email\<lparr>matchedRules := [''r1'']\<rparr>] [ex_rule],
        ProcessMultipleEmails [ex_late_email\<lparr>matchedRules := [''r1'']\<rparr>] [ex_rule]]"
  by (simp add: ex_low_3_def ex_low_2_def ex_low_1_def model_defs ex_defs)

subsection \<open>Retries\<close>

lemma attempts_below_limit:
  "retry_limit R = Some N \<Longrightarrow> attempts_below (Suc k) R = (Suc k < N)"
proof (cases R)
  case (Finite r)
  assume "retry_limit R = Some N"
  with Finite have N: "N = max 1 (nat \<lceil>r\<rceil>)" by simp
  have "(real (Suc k) < r) = (int (Suc k) < \<lceil>r\<rceil>)"
    by (metis less_ceiling_iff of_int_of_nat_eq)
  also have "\<dots> = (Suc k < nat \<lceil>r\<rceil>)" by linarith
  also have "\<dots> = (Suc k < N)" using N by auto
  finally show ?thesis using Finite by simp
qed auto

lemma retry_limit_positive: "retry_limit R = Some N \<Longrightarrow> 1 \<le> N"
  by (cases R) auto

lemma retry_limit_whole: "1 \<le> n \<Longrightarrow> retry_limit (Finite (real n)) = Some n"
  by simp

lemma processQueueItem_refused:
  assumes "sink_refuses E (eid (email it)) m"
    and "processMultipleEmails E (n_extract d) [email it] (rules it) = Inr results"
    and "eligible (rules it) results \<noteq> []"
  shows "\<exists>t c. processQueueItem E it d =
           (Some t, d\<lparr>n_extract := Suc (n_extract d), n_sink := Suc (n_sink d),
                       log := log d @ [ProcessMultipleEmails [email it] (rules it), c]\<rparr>)
         \<and> error_message t = m (n_sink d) \<and> is_sink_call c \<and> mentions (eid (email it)) c"
proof -
  from assms(3) obtain p ps where ps: "eligible (rules it) results = p # ps"
    by (cases "eligible (rules it) results") auto
  from assms(1) have no: "\<not> accepted (sink_answer E (n_sink d) (email it) p)"
    and msg: "error_message (refusal (sink_answer E (n_sink d) (email it) p)) = m (n_sink d)"
    by (simp_all add: sink_refuses_def sink_answer_def)
  have "processQueueItem E it d =
           (Some (refusal (sink_answer E (n_sink d) (email it) p)),
            d\<lparr>n_extract := Suc (n_extract d), n_sink := Suc (n_sink d),
               log := log d @ [ProcessMultipleEmails [email it] (rules it),
                               sink_call (email it) p]\<rparr>)"
    using no by (simp add: processQueueItem_expected [OF assms(2)] ps)
  with msg show ?thesis by auto
qed


lemma drain_item_refused:
  assumes "sink_refuses E (eid (email it)) m"
    and "processMultipleEmails E (n_extract d) [email it] (rules it) = Inr results"
    and "eligible (rules it) results \<noteq> []"
  shows "\<exists>c. is_sink_call c \<and> mentions (eid (email it)) c
           \<and> log (drain_item E it d) =
               log d @ [ProcessMultipleEmails [email it] (rules it), c]
                 @ (if attempts_below (js_increment (attempts it)) (retryAttempts (config d)) then []
                    else [Emit (ProcessingFailed (eid (email it)) (m (n_sink d))
                                  (js_increment (attempts it)))])"
    and "processingQueue (drain_item E it d) =
           processingQueue d
             @ (if attempts_below (js_increment (attempts it)) (retryAttempts (config d))
                then [it\<lparr>attempts := js_increment (attempts it),
                         lastAttemptTime := Some (DateMs (now E (n_clock d))),
                         item_error := Some (m (n_sink d))\<rparr>]
                else [])"
    and "state (drain_item E it d) = state d"
proof -
  from processQueueItem_refused [OF assms] obtain t c where
    pq: "processQueueItem E it d =
           (Some t, d\<lparr>n_extract := Suc (n_extract d), n_sink := Suc (n_sink d),
                       log := log d @ [ProcessMultipleEmails [email it] (rules it), c]\<rparr>)"
    and t: "error_message t = m (n_sink d)" and c: "is_sink_call c" "mentions (eid (email it)) c"
    by blast
  have "log (drain_item E it d) =
               log d @ [ProcessMultipleEmails [email it] (rules it), c]
                 @ (if attempts_below (js_increment (attempts it)) (retryAttempts (config d)) then []
                    else [Emit (ProcessingFailed (eid (email it)) (m (n_sink d))
                                  (js_increment (attempts it)))])"
    by (simp add: drain_item_def pq record_failure_def read_clock_def emit_def t)
  with c show "\<exists>c. is_sink_call c \<and> mentions (eid (email it)) c
           \<and> log (drain_item E it d) =
               log d @ [ProcessMultipleEmails [email it] (rules it), c]
                 @ (if attempts_below (js_increment (attempts it)) (retryAttempts (config d)) then []
                    else [Emit (ProcessingFailed (eid (email it)) (m (n_sink d))
                                  (js_increment (attempts it)))])"
    by blast
  show "processingQueue (drain_item E it d) =
           processingQueue d
             @ (if attempts_below (js_increment (attempts it)) (retryAttempts (config d))
                then [it\<lparr>attempts := js_increment (attempts it),
                         lastAttemptTime := Some (DateMs (now E (n_clock d))),
                         item_error := Some (m (n_sink d))\<rparr>]
                else [])"
    by (simp add: drain_item_def pq record_failure_def read_clock_def emit_def t)
  show "state (drain_item E it d) = state d"
    by (simp add: drain_item_def pq record_failure_def read_clock_def emit_def Let_def)
qed

lemma drain_items_append:
  "drain_items E (xs @ ys) d = drain_items E ys (drain_items E xs d)"
  by (induction xs arbitrary: d) simp_all

lemma processQueue_split:
  "processingQueue d = pre @ it # post \<Longrightarrow>
   processQueue E d = drain_items E post (drain_item E it (before_turn E pre d))"
  by (simp add: processQueue_def before_turn_def drain_items_append)

lemma drain_item_queue:
  "\<exists>suffix. processingQueue (drain_item E item d) = processingQueue d @ suffix
     \<and> (\<forall>q\<in>set suffix. email q = email item \<and> rules q = rules item)"
  by (cases "fst (processQueueItem E item d)")
     (simp_all add: drain_item_alt mark_processed_def record_failure_def read_clock_def emit_def
        Let_def processQueueItem_fields)

lemma drain_items_queue:
  "\<exists>suffix. processingQueue (drain_items E items d) = processingQueue d @ suffix
     \<and> (\<forall>q\<in>set suffix. \<exists>q0\<in>set items. email q = email q0 \<and> rules q = rules q0)"
proof (induction items arbitrary: d)
  case Nil
  show ?case by simp
next
  case (Cons item items)
  from drain_item_queue [of E item d] obtain s1 where
    s1: "processingQueue (drain_item E item d) = processingQueue d @ s1"
    "\<forall>q\<in>set s1. email q = email item \<and> rules q = rules item"
    by blast
  from Cons.IH [of "drain_item E item d"] obtain s2 where
    s2: "processingQueue (drain_items E items (drain_item E item d)) =
           processingQueue (drain_item E item d) @ s2"
    "\<forall>q\<in>set s2. \<exists>q0\<in>set items. email q = email q0 \<and> rules q = rules q0"
    by blast
  from s1 s2 show ?case
    by (intro exI [where x = "s1 @ s2"]) auto
qed

lemma drain_item_ids_upper:
  "set (processedEmailIds (state (drain_item E item d)))
     \<subseteq> insert (eid (email item)) (set (processedEmailIds (state d)))"
  by (cases "fst (processQueueItem E item d)")
     (auto simp: drain_item_alt mark_processed_def record_failure_def read_clock_def emit_def
        set_add_def Let_def processQueueItem_fields)

lemma drain_items_ids_upper:
  "set (processedEmailIds (state (drain_items E items d)))
     \<subseteq> set (processedEmailIds (state d)) \<union> (\<lambda>q. eid (email q)) ` set items"
proof (induction items arbitrary: d)
  case Nil
  show ?case by simp
next
  case (Cons item items)
  from Cons.IH [of "drain_item E item d"] drain_item_ids_upper [of E item d]
  show ?case by auto
qed

lemma filter_for:
  "filter (failed_for x) L = filter is_failed (filter (mentions x) L)"
  "filter (extraction_for x) L = filter is_extract_call (filter (mentions x) L)"
proof -
  have "failed_for x = (\<lambda>c. mentions x c \<and> is_failed c)"
    "extraction_for x = (\<lambda>c. mentions x c \<and> is_extract_call c)"
    by (auto simp: fun_eq_iff failed_for_def extraction_for_def)
  then show "filter (failed_for x) L = filter is_failed (filter (mentions x) L)"
    "filter (extraction_for x) L = filter is_extract_call (filter (mentions x) L)"
    by simp_all
qed


lemma sink_call_kind: "is_sink_call c \<Longrightarrow> \<not> is_failed c \<and> \<not> is_extract_call c"
  by (cases c) simp_all

lemma before_turn_fields:
  "config (before_turn E pre d) = config d"
  by (simp add: before_turn_def drain_items_fields)

lemma failing_turn:
  assumes ref: "sink_refuses E (eid (email x)) m" and rs: "reaches_sink E x"
    and lim: "retry_limit (retryAttempts (config d)) = Some N"
    and small: "attempts it < 9007199254740992"
    and cp: "email it = email x" "rules it = rules x"
  shows "\<exists>c. is_sink_call c \<and> mentions (eid (email x)) c
           \<and> log (drain_item E it (before_turn E pre d)) =
               log (before_turn E pre d) @ [ProcessMultipleEmails [email x] (rules x), c]
                 @ (if Suc (attempts it) < N then []
                    else [Emit (ProcessingFailed (eid (email x))
                                  (m (n_sink (before_turn E pre d))) (Suc (attempts it)))])"
    and "processingQueue (drain_item E it (before_turn E pre d)) =
           processingQueue (before_turn E pre d)
             @ (if Suc (attempts it) < N then [retried E m it (before_turn E pre d)] else [])"
    and "state (drain_item E it (before_turn E pre d)) = state (before_turn E pre d)"
proof -
  let ?d1 = "before_turn E pre d"
  from rs obtain results where
    ex: "processMultipleEmails E (n_extract ?d1) [email it] (rules it) = Inr results"
    and el: "eligible (rules it) results \<noteq> []"
    unfolding reaches_sink_def cp by blast
  have inc: "js_increment (attempts it) = Suc (attempts it)"
    using js_increment_exact [OF small] by simp
  have below: "attempts_below (Suc (attempts it)) (retryAttempts (config ?d1)) = (Suc (attempts it) < N)"
    using attempts_below_limit [OF lim] by (simp add: before_turn_fields)
  have ref': "sink_refuses E (eid (email it)) m" using ref cp by simp
  note turn = drain_item_refused [OF ref' ex el]
  from turn(1) show "\<exists>c. is_sink_call c \<and> mentions (eid (email x)) c
           \<and> log (drain_item E it ?d1) =
               log ?d1 @ [ProcessMultipleEmails [email x] (rules x), c]
                 @ (if Suc (attempts it) < N then []
                    else [Emit (ProcessingFailed (eid (email x)) (m (n_sink ?d1)) (Suc (attempts it)))])"
    unfolding inc below cp .
  from turn(2) show "processingQueue (drain_item E it ?d1) =
           processingQueue ?d1 @ (if Suc (attempts it) < N then [retried E m it ?d1] else [])"
    unfolding inc below by (simp add: retried_def)
  from turn(3) show "state (drain_item E it ?d1) = state ?d1" .
qed

lemma drain_step:
  assumes ref: "sink_refuses E (eid (email x)) m" and rs: "reaches_sink E x"
    and lim: "retry_limit (retryAttempts (config d)) = Some N"
    and small: "attempts it < 9007199254740992"
    and cp: "email it = email x" "rules it = rules x"
    and q: "processingQueue d = pre @ it # post"
  shows "\<exists>s1 s2. processingQueue (processQueue E d) =
             s1 @ (if Suc (attempts it) < N then [retried E m it (before_turn E pre d)] else []) @ s2
           \<and> (\<forall>q\<in>set (s1 @ s2). \<exists>q0\<in>set (pre @ post). email q = email q0 \<and> rules q = rules q0)"
    and "eid (email x) \<notin> (\<lambda>q. eid (email q)) ` set (pre @ post) \<Longrightarrow>
         filter (failed_for (eid (email x))) (log (processQueue E d)) =
           filter (failed_for (eid (email x))) (log d)
             @ (if Suc (attempts it) < N then []
                else [Emit (ProcessingFailed (eid (email x))
                              (m (n_sink (before_turn E pre d))) (Suc (attempts it)))])
         \<and> filter (extraction_for (eid (email x))) (log (processQueue E d)) =
             filter (extraction_for (eid (email x))) (log d)
               @ [ProcessMultipleEmails [email x] (rules x)]"
    and "eid (email x) \<notin> (\<lambda>q. eid (email q)) ` set (pre @ post) \<Longrightarrow>
         eid (email x) \<notin> set (processedEmailIds (state d)) \<Longrightarrow>
         eid (email x) \<notin> set (processedEmailIds (state (processQueue E d)))"
proof -
  let ?x = "eid (email x)"
  let ?d0 = "d\<lparr>processingQueue := []\<rparr>"
  let ?d1 = "before_turn E pre d"
  let ?d2 = "drain_item E it ?d1"
  let ?d3 = "drain_items E post ?d2"
  have split: "processQueue E d = ?d3" using q by (rule processQueue_split)
  note turn = failing_turn [OF ref rs lim small cp, where pre = pre]
  from drain_items_queue [of E pre ?d0] obtain s1 where
    s1: "processingQueue ?d1 = s1"
    "\<forall>q\<in>set s1. \<exists>q0\<in>set pre. email q = email q0 \<and> rules q = rules q0"
    by (auto simp: before_turn_def)
  from drain_items_queue [of E post ?d2] obtain s2 where
    s2: "processingQueue ?d3 = processingQueue ?d2 @ s2"
    "\<forall>q\<in>set s2. \<exists>q0\<in>set post. email q = email q0 \<and> rules q = rules q0"
    by blast
  have "processingQueue (processQueue E d) =
             s1 @ (if Suc (attempts it) < N then [retried E m it ?d1] else []) @ s2"
    using s1(1) s2(1) turn(2) by (simp add: split)
  moreover have "\<forall>q\<in>set (s1 @ s2). \<exists>q0\<in>set (pre @ post). email q = email q0 \<and> rules q = rules q0"
    using s1(2) s2(2) by auto
  ultimately show "\<exists>s1 s2. processingQueue (processQueue E d) =
             s1 @ (if Suc (attempts it) < N then [retried E m it ?d1] else []) @ s2
           \<and> (\<forall>q\<in>set (s1 @ s2). \<exists>q0\<in>set (pre @ post). email q = email q0 \<and> rules q = rules q0)"
    by blast
  {
    assume uniq: "?x \<notin> (\<lambda>q. eid (email q)) ` set (pre @ post)"
    then have np: "?x \<notin> set (map (\<lambda>q. eid (email q)) pre)"
      and npo: "?x \<notin> set (map (\<lambda>q. eid (email q)) post)"
      by auto
    have m1: "filter (mentions ?x) (log ?d1) = filter (mentions ?x) (log d)"
      using drain_items_other [OF np, of E ?d0] by (simp add: before_turn_def)
    have m3: "filter (mentions ?x) (log ?d3) = filter (mentions ?x) (log ?d2)"
      using drain_items_other [OF npo, of E ?d2] by simp
    from turn(1) obtain c where c: "is_sink_call c" "mentions ?x c"
      and l2: "log ?d2 = log ?d1 @ [ProcessMultipleEmails [email x] (rules x), c]
                 @ (if Suc (attempts it) < N then []
                    else [Emit (ProcessingFailed ?x (m (n_sink ?d1)) (Suc (attempts it)))])"
      by blast
    have all: "filter (mentions ?x) (log (processQueue E d)) =
           filter (mentions ?x) (log d)
             @ [ProcessMultipleEmails [email x] (rules x), c]
             @ (if Suc (attempts it) < N then []
                else [Emit (ProcessingFailed ?x (m (n_sink ?d1)) (Suc (attempts it)))])"
      using c by (simp add: split m3 l2 m1)
    show "filter (failed_for ?x) (log (processQueue E d)) =
           filter (failed_for ?x) (log d)
             @ (if Suc (attempts it) < N then []
                else [Emit (ProcessingFailed ?x (m (n_sink ?d1)) (Suc (attempts it)))])
         \<and> filter (extraction_for ?x) (log (processQueue E d)) =
             filter (extraction_for ?x) (log d) @ [ProcessMultipleEmails [email x] (rules x)]"
      using sink_call_kind [OF c(1)] by (simp add: filter_for all)
    {
      assume fresh: "?x \<notin> set (processedEmailIds (state d))"
      have "set (processedEmailIds (state ?d1)) \<subseteq>
              set (processedEmailIds (state d)) \<union> (\<lambda>q. eid (email q)) ` set pre"
        using drain_items_ids_upper [of E pre ?d0] by (simp add: before_turn_def)
      with fresh uniq have "?x \<notin> set (processedEmailIds (state ?d2))"
        by (auto simp: turn(3))
      moreover have "set (processedEmailIds (state ?d3)) \<subseteq>
              set (processedEmailIds (state ?d2)) \<union> (\<lambda>q. eid (email q)) ` set post"
        by (rule drain_items_ids_upper)
      ultimately show "?x \<notin> set (processedEmailIds (state (processQueue E d)))"
        using uniq by (auto simp: split)
    }
  }
qed


lemma processQueue_absent:
  assumes "\<not> pending x d"
  shows "x \<notin> set (processedEmailIds (state d)) \<Longrightarrow>
         x \<notin> set (processedEmailIds (state (processQueue E d)))"
  using assms drain_items_ids_upper [of E "processingQueue d" "d\<lparr>processingQueue := []\<rparr>"]
  by (auto simp: processQueue_def pending_def)

lemma drains_absent:
  assumes "\<not> pending x d"
  shows "\<not> pending x ((processQueue E ^^ j) d)
     \<and> filter (mentions x) (log ((processQueue E ^^ j) d)) = filter (mentions x) (log d)
     \<and> (x \<notin> set (processedEmailIds (state d)) \<longrightarrow>
          x \<notin> set (processedEmailIds (state ((processQueue E ^^ j) d))))"
proof (induction j)
  case 0
  from assms show ?case by simp
next
  case (Suc j)
  let ?dj = "(processQueue E ^^ j) d"
  from Suc.IH have np: "\<not> pending x ?dj" by simp
  from processQueue_other [OF np, of E] processQueue_absent [OF np, of E] Suc.IH
  show ?case by simp
qed

lemma retried_fields:
  "email (retried E m it d) = email it"
  "rules (retried E m it d) = rules it"
  "attempts (retried E m it d) = Suc (attempts it)"
  by (simp_all add: retried_def)

lemma drains_retry:
  assumes ref: "sink_refuses E (eid (email x)) m" and rs: "reaches_sink E x"
    and lim: "retry_limit (retryAttempts (config d)) = Some N"
    and bound: "N \<le> 9007199254740992"
    and q: "processingQueue d = pre @ x # post" and a0: "attempts x = 0"
  shows "k < N \<Longrightarrow>
     \<exists>pre' xk post'. processingQueue ((processQueue E ^^ k) d) = pre' @ xk # post'
       \<and> email xk = email x \<and> rules xk = rules x \<and> attempts xk = k
       \<and> config ((processQueue E ^^ k) d) = config d
       \<and> (\<forall>q\<in>set (pre' @ post'). \<exists>q0\<in>set (pre @ post). email q = email q0 \<and> rules q = rules q0)
       \<and> (eid (email x) \<notin> (\<lambda>q. eid (email q)) ` set (pre @ post) \<longrightarrow>
            filter (failed_for (eid (email x))) (log ((processQueue E ^^ k) d))
              = filter (failed_for (eid (email x))) (log d)
            \<and> filter (extraction_for (eid (email x))) (log ((processQueue E ^^ k) d))
              = filter (extraction_for (eid (email x))) (log d)
                  @ replicate k (ProcessMultipleEmails [email x] (rules x))
            \<and> (eid (email x) \<notin> set (processedEmailIds (state d)) \<longrightarrow>
                 eid (email x) \<notin> set (processedEmailIds (state ((processQueue E ^^ k) d)))))"
proof (induction k)
  case 0
  show ?case
    by (rule exI [where x = pre], rule exI [where x = x], rule exI [where x = post])
       (use q a0 in auto)
next
  case (Suc k)
  let ?x = "eid (email x)"
  let ?dk = "(processQueue E ^^ k) d"
  from Suc.prems have k: "k < N" by simp
  from Suc.IH [OF k] obtain pre' xk post' where
    qk: "processingQueue ?dk = pre' @ xk # post'"
    and cp: "email xk = email x" "rules xk = rules x" and ak: "attempts xk = k"
    and cfg: "config ?dk = config d"
    and others: "\<forall>q\<in>set (pre' @ post'). \<exists>q0\<in>set (pre @ post). email q = email q0 \<and> rules q = rules q0"
    and glob: "?x \<notin> (\<lambda>q. eid (email q)) ` set (pre @ post) \<longrightarrow>
            filter (failed_for ?x) (log ?dk) = filter (failed_for ?x) (log d)
            \<and> filter (extraction_for ?x) (log ?dk)
              = filter (extraction_for ?x) (log d)
                  @ replicate k (ProcessMultipleEmails [email x] (rules x))
            \<and> (?x \<notin> set (processedEmailIds (state d)) \<longrightarrow>
                 ?x \<notin> set (processedEmailIds (state ?dk)))"
    by blast
  have lim': "retry_limit (retryAttempts (config ?dk)) = Some N" using lim cfg by simp
  have small: "attempts xk < 9007199254740992" using ak k bound by simp
  have below: "Suc (attempts xk) < N" using ak Suc.prems by simp
  note step = drain_step [OF ref rs lim' small cp qk]
  from step(1) below obtain s1 s2 where
    q': "processingQueue (processQueue E ?dk) = s1 @ retried E m xk (before_turn E pre' ?dk) # s2"
    and from_others: "\<forall>q\<in>set (s1 @ s2). \<exists>q0\<in>set (pre' @ post'). email q = email q0 \<and> rules q = rules q0"
    by auto
  have others': "\<forall>q\<in>set (s1 @ s2). \<exists>q0\<in>set (pre @ post). email q = email q0 \<and> rules q = rules q0"
  proof
    fix q assume "q \<in> set (s1 @ s2)"
    with from_others obtain q1 where "q1 \<in> set (pre' @ post')" "email q = email q1" "rules q = rules q1"
      by blast
    with others show "\<exists>q0\<in>set (pre @ post). email q = email q0 \<and> rules q = rules q0"
      by fastforce
  qed
  have glob': "?x \<notin> (\<lambda>q. eid (email q)) ` set (pre @ post) \<longrightarrow>
            filter (failed_for ?x) (log (processQueue E ?dk)) = filter (failed_for ?x) (log d)
            \<and> filter (extraction_for ?x) (log (processQueue E ?dk))
              = filter (extraction_for ?x) (log d)
                  @ replicate (Suc k) (ProcessMultipleEmails [email x] (rules x))
            \<and> (?x \<notin> set (processedEmailIds (state d)) \<longrightarrow>
                 ?x \<notin> set (processedEmailIds (state (processQueue E ?dk))))"
  proof
    assume uniq: "?x \<notin> (\<lambda>q. eid (email q)) ` set (pre @ post)"
    have uniq': "?x \<notin> (\<lambda>q. eid (email q)) ` set (pre' @ post')"
    proof
      assume "?x \<in> (\<lambda>q. eid (email q)) ` set (pre' @ post')"
      then obtain q1 where "q1 \<in> set (pre' @ post')" "?x = eid (email q1)" by blast
      with others obtain q0 where "q0 \<in> set (pre @ post)" "email q1 = email q0" by blast
      with \<open>?x = eid (email q1)\<close> uniq show False by force
    qed
    from step(2) [OF uniq'] step(3) [OF uniq'] glob uniq below
    show "filter (failed_for ?x) (log (processQueue E ?dk)) = filter (failed_for ?x) (log d)
            \<and> filter (extraction_for ?x) (log (processQueue E ?dk))
              = filter (extraction_for ?x) (log d)
                  @ replicate (Suc k) (ProcessMultipleEmails [email x] (rules x))
            \<and> (?x \<notin> set (processedEmailIds (state d)) \<longrightarrow>
                 ?x \<notin> set (processedEmailIds (state (processQueue E ?dk))))"
      by (simp add: replicate_append_same)
  qed
  have cfg': "config (processQueue E ?dk) = config d"
    using cfg by (simp add: processQueue_fields)
  show ?case
    by (rule exI [where x = s1],
        rule exI [where x = "retried E m xk (before_turn E pre' ?dk)"],
        rule exI [where x = s2])
       (use q' others' glob' cfg' cp ak in \<open>simp add: retried_fields\<close>)
qed


lemma drains_give_up:
  assumes ref: "sink_refuses E (eid (email x)) m" and rs: "reaches_sink E x"
    and lim: "retry_limit (retryAttempts (config d)) = Some N"
    and bound: "N \<le> 9007199254740992"
    and q: "processingQueue d = pre @ x # post" and a0: "attempts x = 0"
    and uniq: "eid (email x) \<notin> (\<lambda>q. eid (email q)) ` set (pre @ post)"
  shows "\<exists>n. filter (failed_for (eid (email x))) (log ((processQueue E ^^ N) d)) =
           filter (failed_for (eid (email x))) (log d)
             @ [Emit (ProcessingFailed (eid (email x)) (m n) N)]"
    and "filter (extraction_for (eid (email x))) (log ((processQueue E ^^ N) d)) =
           filter (extraction_for (eid (email x))) (log d)
             @ replicate N (ProcessMultipleEmails [email x] (rules x))"
    and "\<not> pending (eid (email x)) ((processQueue E ^^ N) d)"
    and "eid (email x) \<notin> set (processedEmailIds (state d)) \<Longrightarrow>
         eid (email x) \<notin> set (processedEmailIds (state ((processQueue E ^^ N) d)))"
proof -
  let ?x = "eid (email x)"
  from retry_limit_positive [OF lim] obtain l where N: "N = Suc l" by (cases N) auto
  let ?dl = "(processQueue E ^^ l) d"
  have l: "l < N" using N by simp
  from drains_retry [OF ref rs lim bound q a0 l] uniq obtain pre' xl post' where
    ql: "processingQueue ?dl = pre' @ xl # post'"
    and cp: "email xl = email x" "rules xl = rules x" and al: "attempts xl = l"
    and cfg: "config ?dl = config d"
    and others: "\<forall>q\<in>set (pre' @ post'). \<exists>q0\<in>set (pre @ post). email q = email q0 \<and> rules q = rules q0"
    and fl: "filter (failed_for ?x) (log ?dl) = filter (failed_for ?x) (log d)"
    and el: "filter (extraction_for ?x) (log ?dl)
              = filter (extraction_for ?x) (log d)
                  @ replicate l (ProcessMultipleEmails [email x] (rules x))"
    and il: "?x \<notin> set (processedEmailIds (state d)) \<longrightarrow>
                 ?x \<notin> set (processedEmailIds (state ?dl))"
    by blast
  have uniq': "?x \<notin> (\<lambda>q. eid (email q)) ` set (pre' @ post')"
  proof
    assume "?x \<in> (\<lambda>q. eid (email q)) ` set (pre' @ post')"
    then obtain q1 where "q1 \<in> set (pre' @ post')" "?x = eid (email q1)" by blast
    with others obtain q0 where "q0 \<in> set (pre @ post)" "email q1 = email q0" by blast
    with \<open>?x = eid (email q1)\<close> uniq show False by force
  qed
  have lim': "retry_limit (retryAttempts (config ?dl)) = Some N" using lim cfg by simp
  have small: "attempts xl < 9007199254740992" using al l bound by simp
  have last: "\<not> Suc (attempts xl) < N" using al N by simp
  note step = drain_step [OF ref rs lim' small cp ql]
  have dN: "(processQueue E ^^ N) d = processQueue E ?dl" using N by simp
  from step(2) [OF uniq'] last fl el al N
  have "filter (failed_for ?x) (log ((processQueue E ^^ N) d)) =
           filter (failed_for ?x) (log d)
             @ [Emit (ProcessingFailed ?x (m (n_sink (before_turn E pre' ?dl))) N)]"
    and ex: "filter (extraction_for ?x) (log ((processQueue E ^^ N) d)) =
           filter (extraction_for ?x) (log d)
             @ replicate N (ProcessMultipleEmails [email x] (rules x))"
    unfolding dN by (simp_all add: replicate_append_same)
  then show "\<exists>n. filter (failed_for ?x) (log ((processQueue E ^^ N) d)) =
           filter (failed_for ?x) (log d) @ [Emit (ProcessingFailed ?x (m n) N)]"
    by blast
  from ex show "filter (extraction_for ?x) (log ((processQueue E ^^ N) d)) =
           filter (extraction_for ?x) (log d)
             @ replicate N (ProcessMultipleEmails [email x] (rules x))" .
  from step(1) last obtain s1 s2 where
    qN: "processingQueue (processQueue E ?dl) = s1 @ s2"
    and from_others: "\<forall>q\<in>set (s1 @ s2). \<exists>q0\<in>set (pre' @ post'). email q = email q0 \<and> rules q = rules q0"
    by auto
  show "\<not> pending ?x ((processQueue E ^^ N) d)"
  proof
    assume "pending ?x ((processQueue E ^^ N) d)"
    then obtain q1 where "q1 \<in> set (s1 @ s2)" "?x = eid (email q1)"
      unfolding dN pending_def qN by auto
    with from_others obtain q0 where "q0 \<in> set (pre' @ post')" "email q1 = email q0" by blast
    with \<open>?x = eid (email q1)\<close> uniq' show False by force
  qed
  show "?x \<notin> set (processedEmailIds (state d)) \<Longrightarrow>
        ?x \<notin> set (processedEmailIds (state ((processQueue E ^^ N) d)))"
    using step(3) [OF uniq'] il unfolding dN by blast
qed

text \<open>
  C5, as amended. Let \<open>N\<close> be the number of failed attempts after which an item is
  given up (\<open>retry_limit\<close>: \<open>retryAttempts\<close> itself when that is a whole number from
  1 on), at most \<open>2^53\<close>. Take a queue item \<open>x\<close> with no attempt made, anywhere in the
  queue among other items, for which the extractor always returns results of which one
  is eligible, and a sink that fails on every call for the message of \<open>x\<close>, its call
  number \<open>n\<close> with the error \<open>m n\<close>. Then after \<open>k < N\<close> drains the item is in the
  queue with \<open>attempts = k\<close>, and the next drain handles it once, when the items before
  it in the queue have been handled: it calls the extractor and the sink once for it and
  leaves the state, with \<open>processedEmailIds\<close>, as it is. While \<open>k + 1 < N\<close> it appends
  the item to the live queue, behind the items pushed back before it, with
  \<open>attempts = k + 1\<close> and the error of the sink call just made, and emits nothing. In
  drain number \<open>N\<close> it emits \<open>processingFailed\<close> with the email id, the error of the
  sink call just made and \<open>attempts = N\<close>, and does not append the item. When no other
  queue item is for the same message: the message is pending after each of the first
  \<open>N - 1\<close> drains, with no \<open>processingFailed\<close> for it and one extraction call for it a
  drain; after drain \<open>N\<close> one \<open>processingFailed\<close> for it has fired; from then on it is
  not in the queue and no call or event is about it; and its id is never added to
  \<open>processedEmailIds\<close>.
\<close>

theorem C5_retry_bound:
  assumes "sink_refuses E (eid (email x)) m" and "reaches_sink E x"
    and "retry_limit (retryAttempts (config d)) = Some N" and "N \<le> 9007199254740992"
    and "processingQueue d = pre @ x # post" and "attempts x = 0"
  shows "(\<forall>k<N. \<exists>pre' xk post'.
          processingQueue ((processQueue E ^^ k) d) = pre' @ xk # post'
          \<and> email xk = email x \<and> rules xk = rules x \<and> attempts xk = k
          \<and> (processQueue E ^^ Suc k) d =
              drain_items E post' (drain_item E xk (before_turn E pre' ((processQueue E ^^ k) d)))
          \<and> (\<exists>c. is_sink_call c \<and> mentions (eid (email x)) c
                \<and> log (drain_item E xk (before_turn E pre' ((processQueue E ^^ k) d))) =
                    log (before_turn E pre' ((processQueue E ^^ k) d))
                      @ [ProcessMultipleEmails [email x] (rules x), c]
                      @ (if Suc k < N then []
                         else [Emit (ProcessingFailed (eid (email x))
                                 (m (n_sink (before_turn E pre' ((processQueue E ^^ k) d))))
                                 (Suc k))]))
          \<and> processingQueue (drain_item E xk (before_turn E pre' ((processQueue E ^^ k) d))) =
              processingQueue (before_turn E pre' ((processQueue E ^^ k) d))
                @ (if Suc k < N
                   then [retried E m xk (before_turn E pre' ((processQueue E ^^ k) d))]
                   else [])
          \<and> state (drain_item E xk (before_turn E pre' ((processQueue E ^^ k) d))) =
              state (before_turn E pre' ((processQueue E ^^ k) d))
          \<and> (\<exists>suffix. processingQueue ((processQueue E ^^ Suc k) d) =
                 processingQueue (drain_item E xk (before_turn E pre' ((processQueue E ^^ k) d)))
                   @ suffix))
    \<and> 1 \<le> N
    \<and> (\<forall>n. 1 \<le> n \<longrightarrow> retry_limit (Finite (real n)) = Some n)
    \<and> (eid (email x) \<notin> (\<lambda>q. eid (email q)) ` set (pre @ post) \<longrightarrow>
         (\<forall>k<N. pending (eid (email x)) ((processQueue E ^^ k) d)
            \<and> filter (failed_for (eid (email x))) (log ((processQueue E ^^ k) d))
                = filter (failed_for (eid (email x))) (log d)
            \<and> filter (extraction_for (eid (email x))) (log ((processQueue E ^^ k) d))
                = filter (extraction_for (eid (email x))) (log d)
                    @ replicate k (ProcessMultipleEmails [email x] (rules x)))
         \<and> (\<exists>n. filter (failed_for (eid (email x))) (log ((processQueue E ^^ N) d)) =
                  filter (failed_for (eid (email x))) (log d)
                    @ [Emit (ProcessingFailed (eid (email x)) (m n) N)])
         \<and> filter (extraction_for (eid (email x))) (log ((processQueue E ^^ N) d)) =
             filter (extraction_for (eid (email x))) (log d)
               @ replicate N (ProcessMultipleEmails [email x] (rules x))
         \<and> (\<forall>j. \<not> pending (eid (email x)) ((processQueue E ^^ (j + N)) d)
                \<and> filter (mentions (eid (email x))) (log ((processQueue E ^^ (j + N)) d))
                    = filter (mentions (eid (email x))) (log ((processQueue E ^^ N) d)))
         \<and> (eid (email x) \<notin> set (processedEmailIds (state d)) \<longrightarrow>
              (\<forall>k. eid (email x) \<notin> set (processedEmailIds (state ((processQueue E ^^ k) d))))))"
proof -
  let ?x = "eid (email x)"
  note inv = drains_retry [OF assms]
  have turns: "\<forall>k<N. \<exists>pre' xk post'.
          processingQueue ((processQueue E ^^ k) d) = pre' @ xk # post'
          \<and> email xk = email x \<and> rules xk = rules x \<and> attempts xk = k
          \<and> (processQueue E ^^ Suc k) d =
              drain_items E post' (drain_item E xk (before_turn E pre' ((processQueue E ^^ k) d)))
          \<and> (\<exists>c. is_sink_call c \<and> mentions ?x c
                \<and> log (drain_item E xk (before_turn E pre' ((processQueue E ^^ k) d))) =
                    log (before_turn E pre' ((processQueue E ^^ k) d))
                      @ [ProcessMultipleEmails [email x] (rules x), c]
                      @ (if Suc k < N then []
                         else [Emit (ProcessingFailed ?x
                                 (m (n_sink (before_turn E pre' ((processQueue E ^^ k) d))))
                                 (Suc k))]))
          \<and> processingQueue (drain_item E xk (before_turn E pre' ((processQueue E ^^ k) d))) =
              processingQueue (before_turn E pre' ((processQueue E ^^ k) d))
                @ (if Suc k < N
                   then [retried E m xk (before_turn E pre' ((processQueue E ^^ k) d))]
                   else [])
          \<and> state (drain_item E xk (before_turn E pre' ((processQueue E ^^ k) d))) =
              state (before_turn E pre' ((processQueue E ^^ k) d))
          \<and> (\<exists>suffix. processingQueue ((processQueue E ^^ Suc k) d) =
                 processingQueue (drain_item E xk (before_turn E pre' ((processQueue E ^^ k) d)))
                   @ suffix)"
  proof (intro allI impI)
    fix k assume k: "k < N"
    let ?dk = "(processQueue E ^^ k) d"
    from inv [OF k] obtain pre' xk post' where
      qk: "processingQueue ?dk = pre' @ xk # post'"
      and cp: "email xk = email x" "rules xk = rules x" and ak: "attempts xk = k"
      and cfg: "config ?dk = config d"
      by blast
    have lim': "retry_limit (retryAttempts (config ?dk)) = Some N" using assms(3) cfg by simp
    have small: "attempts xk < 9007199254740992" using ak k assms(4) by simp
    note turn = failing_turn [OF assms(1,2) lim' small cp, where pre = pre']
    have next_drain: "(processQueue E ^^ Suc k) d =
              drain_items E post' (drain_item E xk (before_turn E pre' ?dk))"
      using processQueue_split [OF qk, of E] by simp
    from drain_items_queue [of E post' "drain_item E xk (before_turn E pre' ?dk)"]
    have after: "\<exists>suffix. processingQueue ((processQueue E ^^ Suc k) d) =
                 processingQueue (drain_item E xk (before_turn E pre' ?dk)) @ suffix"
      unfolding next_drain by blast
    show "\<exists>pre' xk post'.
          processingQueue ?dk = pre' @ xk # post'
          \<and> email xk = email x \<and> rules xk = rules x \<and> attempts xk = k
          \<and> (processQueue E ^^ Suc k) d =
              drain_items E post' (drain_item E xk (before_turn E pre' ?dk))
          \<and> (\<exists>c. is_sink_call c \<and> mentions ?x c
                \<and> log (drain_item E xk (before_turn E pre' ?dk)) =
                    log (before_turn E pre' ?dk)
                      @ [ProcessMultipleEmails [email x] (rules x), c]
                      @ (if Suc k < N then []
                         else [Emit (ProcessingFailed ?x
                                 (m (n_sink (before_turn E pre' ?dk))) (Suc k))]))
          \<and> processingQueue (drain_item E xk (before_turn E pre' ?dk)) =
              processingQueue (before_turn E pre' ?dk)
                @ (if Suc k < N then [retried E m xk (before_turn E pre' ?dk)] else [])
          \<and> state (drain_item E xk (before_turn E pre' ?dk)) = state (before_turn E pre' ?dk)
          \<and> (\<exists>suffix. processingQueue ((processQueue E ^^ Suc k) d) =
                 processingQueue (drain_item E xk (before_turn E pre' ?dk)) @ suffix)"
      by (rule exI [where x = pre'], rule exI [where x = xk], rule exI [where x = post'])
         (use qk cp ak next_drain turn after in \<open>simp only: simp_thms\<close>)
  qed
  have pos: "1 \<le> N" using assms(3) by (rule retry_limit_positive)
  have whole: "\<forall>n. 1 \<le> n \<longrightarrow> retry_limit (Finite (real n)) = Some n" by simp
  have alone: "?x \<notin> (\<lambda>q. eid (email q)) ` set (pre @ post) \<longrightarrow>
         (\<forall>k<N. pending ?x ((processQueue E ^^ k) d)
            \<and> filter (failed_for ?x) (log ((processQueue E ^^ k) d)) = filter (failed_for ?x) (log d)
            \<and> filter (extraction_for ?x) (log ((processQueue E ^^ k) d))
                = filter (extraction_for ?x) (log d)
                    @ replicate k (ProcessMultipleEmails [email x] (rules x)))
         \<and> (\<exists>n. filter (failed_for ?x) (log ((processQueue E ^^ N) d)) =
                  filter (failed_for ?x) (log d) @ [Emit (ProcessingFailed ?x (m n) N)])
         \<and> filter (extraction_for ?x) (log ((processQueue E ^^ N) d)) =
             filter (extraction_for ?x) (log d)
               @ replicate N (ProcessMultipleEmails [email x] (rules x))
         \<and> (\<forall>j. \<not> pending ?x ((processQueue E ^^ (j + N)) d)
                \<and> filter (mentions ?x) (log ((processQueue E ^^ (j + N)) d))
                    = filter (mentions ?x) (log ((processQueue E ^^ N) d)))
         \<and> (?x \<notin> set (processedEmailIds (state d)) \<longrightarrow>
              (\<forall>k. ?x \<notin> set (processedEmailIds (state ((processQueue E ^^ k) d)))))"
  proof
    assume uniq: "?x \<notin> (\<lambda>q. eid (email q)) ` set (pre @ post)"
    note up = drains_give_up [OF assms uniq]
    have before: "\<forall>k<N. pending ?x ((processQueue E ^^ k) d)
            \<and> filter (failed_for ?x) (log ((processQueue E ^^ k) d)) = filter (failed_for ?x) (log d)
            \<and> filter (extraction_for ?x) (log ((processQueue E ^^ k) d))
                = filter (extraction_for ?x) (log d)
                    @ replicate k (ProcessMultipleEmails [email x] (rules x))"
    proof (intro allI impI)
      fix k assume k: "k < N"
      from inv [OF k] uniq obtain pre' xk post' where
        "processingQueue ((processQueue E ^^ k) d) = pre' @ xk # post'" "email xk = email x"
        and "filter (failed_for ?x) (log ((processQueue E ^^ k) d)) = filter (failed_for ?x) (log d)"
        and "filter (extraction_for ?x) (log ((processQueue E ^^ k) d))
                = filter (extraction_for ?x) (log d)
                    @ replicate k (ProcessMultipleEmails [email x] (rules x))"
        by blast
      then show "pending ?x ((processQueue E ^^ k) d)
            \<and> filter (failed_for ?x) (log ((processQueue E ^^ k) d)) = filter (failed_for ?x) (log d)
            \<and> filter (extraction_for ?x) (log ((processQueue E ^^ k) d))
                = filter (extraction_for ?x) (log d)
                    @ replicate k (ProcessMultipleEmails [email x] (rules x))"
        by (simp add: pending_def)
    qed
    have later: "\<forall>j. \<not> pending ?x ((processQueue E ^^ (j + N)) d)
                \<and> filter (mentions ?x) (log ((processQueue E ^^ (j + N)) d))
                    = filter (mentions ?x) (log ((processQueue E ^^ N) d))"
      using drains_absent [OF up(3), where E = E] by (simp add: funpow_add)
    have ids: "?x \<notin> set (processedEmailIds (state d)) \<longrightarrow>
              (\<forall>k. ?x \<notin> set (processedEmailIds (state ((processQueue E ^^ k) d))))"
    proof (intro impI allI)
      fix k assume fresh: "?x \<notin> set (processedEmailIds (state d))"
      show "?x \<notin> set (processedEmailIds (state ((processQueue E ^^ k) d)))"
      proof (cases "k < N")
        case True
        from inv [OF True] uniq fresh show ?thesis by blast
      next
        case False
        then obtain j where j: "k = j + N" by (metis le_add_diff_inverse2 not_less)
        from drains_absent [OF up(3), where E = E and j = j] up(4) [OF fresh]
        show ?thesis unfolding j by (simp add: funpow_add)
      qed
    qed
    from before up(1,2) later ids
    show "(\<forall>k<N. pending ?x ((processQueue E ^^ k) d)
            \<and> filter (failed_for ?x) (log ((processQueue E ^^ k) d)) = filter (failed_for ?x) (log d)
            \<and> filter (extraction_for ?x) (log ((processQueue E ^^ k) d))
                = filter (extraction_for ?x) (log d)
                    @ replicate k (ProcessMultipleEmails [email x] (rules x)))
         \<and> (\<exists>n. filter (failed_for ?x) (log ((processQueue E ^^ N) d)) =
                  filter (failed_for ?x) (log d) @ [Emit (ProcessingFailed ?x (m n) N)])
         \<and> filter (extraction_for ?x) (log ((processQueue E ^^ N) d)) =
             filter (extraction_for ?x) (log d)
               @ replicate N (ProcessMultipleEmails [email x] (rules x))
         \<and> (\<forall>j. \<not> pending ?x ((processQueue E ^^ (j + N)) d)
                \<and> filter (mentions ?x) (log ((processQueue E ^^ (j + N)) d))
                    = filter (mentions ?x) (log ((processQueue E ^^ N) d)))
         \<and> (?x \<notin> set (processedEmailIds (state d)) \<longrightarrow>
              (\<forall>k. ?x \<notin> set (processedEmailIds (state ((processQueue E ^^ k) d)))))"
      by blast
  qed
  from turns pos whole alone show ?thesis by blast
qed

lemma funpow_unfold:
  "(f ^^ 2) d = f (f d)"
  "(f ^^ 3) d = f (f (f d))"
  "(f ^^ 4) d = f (f (f (f d)))"
  "replicate 2 c = [c, c]"
  by (simp_all add: numeral_eq_Suc)

theorem C5_retry_bound_witness:
  "retryAttempts (config ex_two_queued) = Finite 3
   \<and> map (\<lambda>q. eid (email q)) (processingQueue ex_two_queued) = [''m2'', ''m1'']
   \<and> pending ''m1'' ((processQueue ex_env_worse ^^ 2) ex_two_queued)
   \<and> filter (failed_for ''m1'') (log ((processQueue ex_env_worse ^^ 2) ex_two_queued)) = []
   \<and> filter (extraction_for ''m1'') (log ((processQueue ex_env_worse ^^ 2) ex_two_queued)) =
       [ProcessMultipleEmails [ex_email] [ex_rule], ProcessMultipleEmails [ex_email] [ex_rule]]
   \<and> filter (failed_for ''m1'') (log ((processQueue ex_env_worse ^^ 3) ex_two_queued)) =
       [Emit (ProcessingFailed ''m1'' ''gone'' 3)]
   \<and> \<not> pending ''m1'' ((processQueue ex_env_worse ^^ 3) ex_two_queued)
   \<and> \<not> pending ''m1'' ((processQueue ex_env_worse ^^ 4) ex_two_queued)
   \<and> ''m1'' \<notin> set (processedEmailIds (state ((processQueue ex_env_worse ^^ 4) ex_two_queued)))"
proof -
  have h: "sink_refuses ex_env_worse (eid (email ex_item)) ex_errors"
    "reaches_sink ex_env_worse ex_item"
    "retry_limit (retryAttempts (config ex_two_queued)) = Some 3"
    "(3::nat) \<le> 9007199254740992"
    "processingQueue ex_two_queued = [ex_item_late] @ ex_item # []"
    "attempts ex_item = 0"
    by (simp_all add: sink_refuses_def reaches_sink_def eligible_def eligible_rule_def
          map_filter_simps ex_two_queued_def model_defs ex_defs)
  have alone: "eid (email ex_item) \<notin> (\<lambda>q. eid (email q)) ` set ([ex_item_late] @ [])"
    by (simp add: ex_defs)
  have v: "eid (email ex_item) = ''m1''" "email ex_item = ex_email" "rules ex_item = [ex_rule]"
    "eid ex_email = ''m1''"
    "filter (failed_for ''m1'') (log ex_two_queued) = []"
    "filter (extraction_for ''m1'') (log ex_two_queued) = []"
    "''m1'' \<notin> set (processedEmailIds (state ex_two_queued))"
    "retryAttempts (config ex_two_queued) = Finite 3"
    "map (\<lambda>q. eid (email q)) (processingQueue ex_two_queued) = [''m2'', ''m1'']"
    by (simp_all add: ex_two_queued_def model_defs ex_defs)
  note c5 = C5_retry_bound [OF h]
  from c5 alone have two: "pending (eid (email ex_item)) ((processQueue ex_env_worse ^^ 2) ex_two_queued)
      \<and> filter (failed_for (eid (email ex_item))) (log ((processQueue ex_env_worse ^^ 2) ex_two_queued))
          = filter (failed_for (eid (email ex_item))) (log ex_two_queued)
      \<and> filter (extraction_for (eid (email ex_item))) (log ((processQueue ex_env_worse ^^ 2) ex_two_queued))
          = filter (extraction_for (eid (email ex_item))) (log ex_two_queued)
              @ replicate 2 (ProcessMultipleEmails [email ex_item] (rules ex_item))"
    by auto
  from c5 alone have three: "\<not> pending (eid (email ex_item)) ((processQueue ex_env_worse ^^ (0 + 3)) ex_two_queued)"
    by blast
  from c5 alone have four: "\<not> pending (eid (email ex_item)) ((processQueue ex_env_worse ^^ (1 + 3)) ex_two_queued)"
    by blast
  from c5 alone v(1,7) have ids: "eid (email ex_item) \<notin>
      set (processedEmailIds (state ((processQueue ex_env_worse ^^ 4) ex_two_queued)))"
    by auto
  have final: "filter (failed_for ''m1'') (log ((processQueue ex_env_worse ^^ 3) ex_two_queued)) =
       [Emit (ProcessingFailed ''m1'' ''gone'' 3)]"
    by (simp add: funpow_unfold failed_for_def ex_two_queued_def model_defs ex_defs)
  from two three four ids final show ?thesis
    by (simp add: v funpow_unfold(4))
qed

text \<open>
  C5 as stated fails when \<open>retryAttempts\<close> is not a whole number from 1 on. For
  \<open>retryAttempts = 0\<close> no \<open>processingFailed\<close> has fired after 0 drains; the first drain
  makes the one attempt, and the event it emits carries \<open>attempts = 1\<close>. For
  \<open>retryAttempts = 2.5\<close> the item is pushed back after the second failure, and the
  event fires in the third drain with \<open>attempts = 3\<close>.
\<close>

theorem C5_counterexample_no_retries_configured:
  "retryAttempts (config ex_no_retry) = Finite 0
   \<and> processingQueue ex_no_retry = [ex_item]
   \<and> filter is_failed (log ex_no_retry) = []
   \<and> filter is_failed (log (processQueue ex_env_down ex_no_retry)) =
       [Emit (ProcessingFailed ''m1'' ''sink down'' 1)]
   \<and> retryAttempts (config ex_fractional) = Finite (5 / 2)
   \<and> processingQueue ex_fractional = [ex_item]
   \<and> map attempts (processingQueue ((processQueue ex_env_down ^^ 2) ex_fractional)) = [2]
   \<and> filter is_failed (log ((processQueue ex_env_down ^^ 2) ex_fractional)) = []
   \<and> filter is_failed (log ((processQueue ex_env_down ^^ 3) ex_fractional)) =
       [Emit (ProcessingFailed ''m1'' ''sink down'' 3)]"
  by (simp add: funpow_unfold ex_no_retry_def ex_fractional_def ex_queued_def model_defs ex_defs)

subsection \<open>The end of a cycle\<close>








lemma fetchNewEmails_depends:
  "config d = config d' \<Longrightarrow> state d = state d' \<Longrightarrow> gmailClient d = gmailClient d' \<Longrightarrow>
   icloudClient d = icloudClient d' \<Longrightarrow> n_fetch d = n_fetch d' \<Longrightarrow>
   fst (fetchNewEmails E d) = fst (fetchNewEmails E d')"
  by (simp add: fetchNewEmails_def fetch_gmail_def fetch_icloud_def called_def gmail_ready_def
        icloud_ready_def fetch_limit_def split: prod.splits)

lemma fetched_after_loadRules:
  "fst (fetchNewEmails E (called LoadRules (d\<lparr>n_rules := n\<rparr>))) = fst (fetchNewEmails E d)"
  by (rule fetchNewEmails_depends) (simp_all add: called_def)


lemma cycle_try_idle:
  "loadRules E (n_rules d) = Inr rs \<Longrightarrow> fst (fetchNewEmails E d) = [] \<Longrightarrow>
   cycle_try E t0 d =
     (None, snd (fetchNewEmails E (called LoadRules (d\<lparr>n_rules := n_rules d + 1\<rparr>))))"
proof -
  assume r: "loadRules E (n_rules d) = Inr rs" and e: "fst (fetchNewEmails E d) = []"
  let ?d1 = "called LoadRules (d\<lparr>n_rules := n_rules d + 1\<rparr>)"
  obtain es d2 where f: "fetchNewEmails E ?d1 = (es, d2)" by (cases "fetchNewEmails E ?d1")
  have "es = []"
    using f e fetched_after_loadRules [where E = E and d = d and n = "n_rules d + 1"] by simp
  with r f show ?thesis by (simp add: cycle_try_def Let_def)
qed



lemma processEmailsOnce_unfold:
  assumes "\<not> isProcessing d"
  shows "processEmailsOnce E d =
     saveState E
       ((case fst (cycle_try E (now E (n_clock d)) (started d)) of
           None \<Rightarrow> snd (cycle_try E (now E (n_clock d)) (started d))
         | Some t \<Rightarrow> cycle_catch E t (snd (cycle_try E (now E (n_clock d)) (started d))))
        \<lparr>isProcessing := False\<rparr>)"
  using assms
  by (cases "cycle_try E (now E (n_clock d)) (started d)")
     (simp add: processEmailsOnce_def read_clock_def cycle_finally_def started_def
        split: option.splits)

lemma cycle_without_new_emails:
  assumes "\<not> isProcessing d" and "loadRules E (n_rules d) = Inr rs"
    and "fst (fetchNewEmails E d) = []"
  shows "filter is_cycle_event (log (processEmailsOnce E d)) = filter is_cycle_event (log d)"
    and "lastProcessedTimestamp (state (processEmailsOnce E d)) = lastProcessedTimestamp (state d)"
    and "processingQueue (processEmailsOnce E d) = processingQueue d"
proof -
  let ?s = "started d"
  have s: "loadRules E (n_rules ?s) = Inr rs" "fst (fetchNewEmails E ?s) = []"
    using assms(2,3) fetchNewEmails_depends [of ?s d E] by (simp_all add: started_def)
  let ?d1 = "called LoadRules (?s\<lparr>n_rules := n_rules ?s + 1\<rparr>)"
  have r: "cycle_try E (now E (n_clock d)) ?s = (None, snd (fetchNewEmails E ?d1))"
    using s by (rule cycle_try_idle)
  have u: "processEmailsOnce E d = saveState E ((snd (fetchNewEmails E ?d1))\<lparr>isProcessing := False\<rparr>)"
    using processEmailsOnce_unfold [OF assms(1), of E] r by simp
  show "filter is_cycle_event (log (processEmailsOnce E d)) = filter is_cycle_event (log d)"
    by (simp add: u saveState_fields fetchNewEmails_fields called_def started_def)
  show "lastProcessedTimestamp (state (processEmailsOnce E d)) = lastProcessedTimestamp (state d)"
    by (simp add: u saveState_fields fetchNewEmails_fields called_def started_def)
  show "processingQueue (processEmailsOnce E d) = processingQueue d"
    by (simp add: u saveState_fields fetchNewEmails_fields called_def started_def)
qed




text \<open>
  A cycle that fetches no new message returns early: here the second cycle, in which
  \<open>m1\<close> is fetched again and filtered out. It writes the state, emits neither
  \<open>processingComplete\<close> nor \<open>processingError\<close>, and leaves \<open>lastProcessedTimestamp\<close>
  and the queue as they were.
\<close>

lemma cycle_without_new_emails_example:
  "fst (fetchNewEmails ex_env ex_done) = []
   \<and> drop (length (log ex_done)) (log (processEmailsOnce ex_env ex_done)) =
       [LoadRules, GetEmails Gmail 25, GetEmails Icloud 25,
        WriteFile
          \<lparr>sv_lastProcessedTimestamp = Some (TextOf (DateMs 5001)),
           sv_processedEmailIds = Some [''m1''], sv_totalEmailsProcessed = Some 1,
           sv_totalRemindersCreated = Some 1, sv_lastErrorTimestamp = None,
           sv_lastErrorMessage = None\<rparr>]
   \<and> lastProcessedTimestamp (state (processEmailsOnce ex_env ex_done))
       = lastProcessedTimestamp (state ex_done)"
  by (simp add: ex_done_def model_defs ex_defs)


end
